theory Spec2Isabelle
  imports Main "HOL-Library.Sublist"
begin

section \<open>JavaScript strings\<close>

text \<open>
  A JavaScript string is a sequence of UTF-16 code units, and \<open>length\<close>, \<open>slice\<close>,
  \<open>indexOf\<close> and the regular expressions of \<open>build_blog.js\<close> (none has the \<open>u\<close> flag) all
  count and match code units. A string is modelled as the list of its code units, each a
  natural number (below 65536 in every real string). \<open>js\<close> turns an ASCII literal into
  such a list.
\<close>

type_synonym jstring = "nat list"

definition js :: "string \<Rightarrow> jstring" where
  "js s = map of_char s"

text \<open>
  The class \<open>\s\<close> of ECMAScript: TAB, LF, VT, FF, CR, space, NBSP, U+1680, U+2000 to
  U+200A, U+2028, U+2029, U+202F, U+205F, U+3000 and U+FEFF. \<open>String.prototype.trim\<close>
  strips exactly the same code units.
\<close>

definition is_space :: "nat \<Rightarrow> bool" where
  "is_space c \<longleftrightarrow>
     (9 \<le> c \<and> c \<le> 13) \<or> c = 32 \<or> c = 160 \<or> c = 5760 \<or> (8192 \<le> c \<and> c \<le> 8202) \<or>
     c = 8232 \<or> c = 8233 \<or> c = 8239 \<or> c = 8287 \<or> c = 12288 \<or> c = 65279"

text \<open>The class \<open>[a-z0-9]\<close> of \<open>slugify\<close> and the class \<open>\w\<close>, which is \<open>[A-Za-z0-9_]\<close>.\<close>

definition is_lower_alnum :: "nat \<Rightarrow> bool" where
  "is_lower_alnum c \<longleftrightarrow> (97 \<le> c \<and> c \<le> 122) \<or> (48 \<le> c \<and> c \<le> 57)"

definition is_word_char :: "nat \<Rightarrow> bool" where
  "is_word_char c \<longleftrightarrow> (65 \<le> c \<and> c \<le> 90) \<or> (97 \<le> c \<and> c \<le> 122) \<or> (48 \<le> c \<and> c \<le> 57) \<or> c = 95"

text \<open>
  \<open>toUpperCase\<close> on an ASCII code unit. Under the \<open>i\<close> flag (without \<open>u\<close>) two code
  units match when their canonical forms agree, and a code unit from 128 on is never
  canonicalised to an ASCII one, so against the ASCII literals of the patterns the
  comparison is the ASCII one.
\<close>

definition ascii_upper :: "nat \<Rightarrow> nat" where
  "ascii_upper c = (if 97 \<le> c \<and> c \<le> 122 then c - 32 else c)"

definition starts_with :: "jstring \<Rightarrow> jstring \<Rightarrow> bool" where
  "starts_with pat s \<longleftrightarrow> take (length pat) s = pat"

definition starts_with_ci :: "jstring \<Rightarrow> jstring \<Rightarrow> bool" where
  "starts_with_ci pat s \<longleftrightarrow> map ascii_upper (take (length pat) s) = map ascii_upper pat"

definition endsWith :: "jstring \<Rightarrow> jstring \<Rightarrow> bool" where
  "endsWith s pat \<longleftrightarrow> length pat \<le> length s \<and> drop (length s - length pat) s = pat"

text \<open>
  \<open>s.slice(a, b)\<close> and \<open>s.slice(a)\<close>: a negative index counts from the end, and both
  ends are clamped to the string.
\<close>

definition slice_index :: "jstring \<Rightarrow> int \<Rightarrow> nat" where
  "slice_index s a = (let n = int (length s) in nat (if a < 0 then max (n + a) 0 else min a n))"

definition slice :: "jstring \<Rightarrow> int \<Rightarrow> int \<Rightarrow> jstring" where
  "slice s a b = take (slice_index s b - slice_index s a) (drop (slice_index s a) s)"

definition slice_from :: "jstring \<Rightarrow> int \<Rightarrow> jstring" where
  "slice_from s a = drop (slice_index s a) s"

text \<open>\<open>s.indexOf(pat)\<close>: the first index at which \<open>pat\<close> occurs, or \<open>-1\<close>.\<close>

fun find_sub :: "jstring \<Rightarrow> jstring \<Rightarrow> nat option" where
  "find_sub pat [] = (if pat = [] then Some 0 else None)"
| "find_sub pat (c # cs) =
     (if starts_with pat (c # cs) then Some 0 else map_option Suc (find_sub pat cs))"

definition indexOf :: "jstring \<Rightarrow> jstring \<Rightarrow> int" where
  "indexOf s pat = (case find_sub pat s of None \<Rightarrow> -1 | Some i \<Rightarrow> int i)"

text \<open>
  \<open>s.lastIndexOf(c, from)\<close> for a one-unit search string: the last index not above
  \<open>from\<close> at which \<open>c\<close> stands, or \<open>-1\<close>.
\<close>

definition lastIndexOf :: "jstring \<Rightarrow> nat \<Rightarrow> int \<Rightarrow> int" where
  "lastIndexOf s c from =
     (case filter (\<lambda>i. s ! i = c) (rev [0 ..< min (nat (from + 1)) (length s)]) of
        [] \<Rightarrow> -1
      | i # _ \<Rightarrow> int i)"

text \<open>\<open>String(n)\<close> for a count: its decimal digits.\<close>

function toString :: "nat \<Rightarrow> jstring" where
  "toString n = (if n < 10 then [48 + n] else toString (n div 10) @ [48 + n mod 10])"
  by pat_completeness auto
termination
  by (relation "measure id") auto

declare toString.simps [simp del]

section \<open>Regular expressions\<close>

text \<open>
  A pattern is modelled by its matcher: given the rest of the subject from the current
  position, the matcher returns what the pattern matches there (the length of the match,
  or a capture), or \<open>None\<close>. A search tries the positions from left to right, as the
  regular expression engine does.

  \<open>first_match\<close> is \<open>s.match(re)\<close> and \<open>re.exec(s)\<close> for a pattern not yet used:
  the match at the leftmost position that has one.
\<close>

fun first_match :: "(jstring \<Rightarrow> 'a option) \<Rightarrow> jstring \<Rightarrow> 'a option" where
  "first_match m [] = m []"
| "first_match m (c # cs) = (case m (c # cs) of Some r \<Rightarrow> Some r | None \<Rightarrow> first_match m cs)"

text \<open>
  \<open>s.replace(re, rep)\<close> without the \<open>g\<close> flag replaces the leftmost match only.
\<close>

fun replace_first :: "(jstring \<Rightarrow> nat option) \<Rightarrow> jstring \<Rightarrow> jstring \<Rightarrow> jstring" where
  "replace_first m rep [] = (case m [] of None \<Rightarrow> [] | Some n \<Rightarrow> rep)"
| "replace_first m rep (c # cs) =
     (case m (c # cs) of
        None \<Rightarrow> c # replace_first m rep cs
      | Some n \<Rightarrow> rep @ drop n (c # cs))"

text \<open>
  \<open>s.replace(re, f)\<close> with the \<open>g\<close> flag replaces every match, searching on after the
  end of each one; \<open>f\<close> receives the matched text. No pattern of the program matches the
  empty string, so a match has at least one code unit.
\<close>

function replace_g :: "(jstring \<Rightarrow> nat option) \<Rightarrow> (jstring \<Rightarrow> jstring) \<Rightarrow> jstring \<Rightarrow> jstring" where
  "replace_g m f [] = []"
| "replace_g m f (c # cs) =
     (case m (c # cs) of
        None \<Rightarrow> c # replace_g m f cs
      | Some n \<Rightarrow> f (take n (c # cs)) @ replace_g m f (drop (n - 1) cs))"
  by pat_completeness auto
termination
  by (relation "measure (\<lambda>(m, f, s). length s)") auto

declare replace_g.simps(2) [simp del]

text \<open>A single code unit \<open>c\<close>, and a single code unit of a class.\<close>

definition m_char :: "nat \<Rightarrow> jstring \<Rightarrow> nat option" where
  "m_char c s = (case s of [] \<Rightarrow> None | x # _ \<Rightarrow> if x = c then Some 1 else None)"

definition m_one :: "(nat \<Rightarrow> bool) \<Rightarrow> jstring \<Rightarrow> nat option" where
  "m_one P s = (case s of [] \<Rightarrow> None | x # _ \<Rightarrow> if P x then Some 1 else None)"

text \<open>\<open>[class]+\<close> on its own: greedy, so the longest run of the class.\<close>

definition m_plus :: "(nat \<Rightarrow> bool) \<Rightarrow> jstring \<Rightarrow> nat option" where
  "m_plus P s = (let n = length (takeWhile P s) in if n = 0 then None else Some n)"

text \<open>\<open>-{2,}\<close>: a run of at least two hyphens.\<close>

definition m_hyphens :: "jstring \<Rightarrow> nat option" where
  "m_hyphens s = (let n = length (takeWhile (\<lambda>c. c = 45) s) in if n < 2 then None else Some n)"

text \<open>A literal under the \<open>i\<close> flag, and the alternation of two patterns.\<close>

definition m_lit_ci :: "jstring \<Rightarrow> jstring \<Rightarrow> nat option" where
  "m_lit_ci pat s = (if starts_with_ci pat s then Some (length pat) else None)"

definition m_alt :: "(jstring \<Rightarrow> nat option) \<Rightarrow> (jstring \<Rightarrow> nat option) \<Rightarrow> jstring \<Rightarrow> nat option" where
  "m_alt m1 m2 s = (case m1 s of Some n \<Rightarrow> Some n | None \<Rightarrow> m2 s)"

text \<open>
  \<open><[^>]+>\<close>: a \<open><\<close>, at least one code unit other than \<open>>\<close>, and the first \<open>>\<close>
  after them.
\<close>

definition m_tag :: "jstring \<Rightarrow> nat option" where
  "m_tag s =
     (case s of
        [] \<Rightarrow> None
      | x # rest \<Rightarrow>
          (let k = length (takeWhile (\<lambda>c. c \<noteq> 62) rest)
           in if x = 60 \<and> 1 \<le> k \<and> k < length rest then Some (k + 2) else None))"

text \<open>
  \<open>[class]+$\<close>: the rest of the subject, when it is not empty and all of the class.
  \<open>\s+\S*$\<close>: the rest of the subject, when it is a run of white space followed by
  code units that are not white space.
\<close>

definition m_plus_end :: "(nat \<Rightarrow> bool) \<Rightarrow> jstring \<Rightarrow> nat option" where
  "m_plus_end P s = (if s \<noteq> [] \<and> list_all P s then Some (length s) else None)"

definition m_space_word_end :: "jstring \<Rightarrow> nat option" where
  "m_space_word_end s =
     (if takeWhile is_space s \<noteq> [] \<and> list_all (\<lambda>c. \<not> is_space c) (dropWhile is_space s)
      then Some (length s) else None)"

text \<open>\<open>\.html$\<close> under the \<open>i\<close> flag.\<close>

definition m_html_ext :: "jstring \<Rightarrow> nat option" where
  "m_html_ext s = (if length s = 5 \<and> starts_with_ci (js ''.html'') s then Some 5 else None)"

text \<open>
  \<open><TAG[^>]*>([\s\S]*?)<\/TAG>\<close> under the \<open>i\<close> flag, at the current position: the
  opening literal, everything up to the first \<open>>\<close>, and then lazily up to the first
  closing tag. The result is the capture.
\<close>

definition m_element :: "jstring \<Rightarrow> jstring \<Rightarrow> jstring option" where
  "m_element tag s =
     (if starts_with_ci (60 # tag) s then
        (case dropWhile (\<lambda>c. c \<noteq> 62) (drop (Suc (length tag)) s) of
           [] \<Rightarrow> None
         | _ # body \<Rightarrow>
             (case first_match (\<lambda>t. if starts_with_ci (js ''</'' @ tag @ js ''>'') t then Some (length t) else None) body of
                None \<Rightarrow> None
              | Some r \<Rightarrow> Some (take (length body - r) body)))
      else None)"

text \<open>
  \<open><meta[^>]*name=["']description["'][^>]*>\<close> under the \<open>i\<close> flag: the tag runs to the
  first \<open>>\<close>, and the attribute must stand somewhere before it. The result is the
  matched text.
\<close>

definition is_quote_mark :: "nat \<Rightarrow> bool" where
  "is_quote_mark c \<longleftrightarrow> c = 34 \<or> c = 39"

definition m_name_description :: "jstring \<Rightarrow> unit option" where
  "m_name_description s =
     (if starts_with_ci (js ''name='') s \<and> 5 < length s \<and> is_quote_mark (s ! 5) \<and>
         starts_with_ci (js ''description'') (drop 6 s) \<and> 17 < length s \<and> is_quote_mark (s ! 17)
      then Some () else None)"

definition m_meta :: "jstring \<Rightarrow> jstring option" where
  "m_meta s =
     (if starts_with_ci (js ''<meta'') s then
        (let inner = takeWhile (\<lambda>c. c \<noteq> 62) (drop 5 s)
         in if length inner < length (drop 5 s) \<and> first_match m_name_description inner \<noteq> None
            then Some (take (5 + length inner + 1) s) else None)
      else None)"

text \<open>
  \<open>content=(["'])([\s\S]*?)\1\<close> under the \<open>i\<close> flag: the value runs lazily to the next
  occurrence of the opening quote. The result is the second capture.
\<close>

definition m_content :: "jstring \<Rightarrow> jstring option" where
  "m_content s =
     (if starts_with_ci (js ''content='') s then
        (case drop 8 s of
           [] \<Rightarrow> None
         | q # rest \<Rightarrow>
             (let v = takeWhile (\<lambda>c. c \<noteq> q) rest
              in if is_quote_mark q \<and> length v < length rest then Some v else None))
      else None)"

section \<open>The runtime's Unicode functions\<close>

text \<open>
  \<open>String.prototype.normalize\<close>, \<open>toLowerCase\<close> and \<open>localeCompare\<close> are computed by
  the runtime from the Unicode tables, which are no part of the repository. The program
  is modelled for any three such functions.
\<close>

record platform =
  normalizeNFKD :: "jstring \<Rightarrow> jstring"
  toLowerCase :: "jstring \<Rightarrow> jstring"
  localeCompare :: "jstring \<Rightarrow> jstring \<Rightarrow> int"

text \<open>
  On ASCII strings \<open>normalize('NFKD')\<close> is the identity and \<open>toLowerCase\<close> maps
  \<open>A-Z\<close> to \<open>a-z\<close>. \<open>ascii_platform\<close> is used to evaluate the program on ASCII input; its
  comparison is the one of the code units.
\<close>

definition ascii_lower :: "nat \<Rightarrow> nat" where
  "ascii_lower c = (if 65 \<le> c \<and> c \<le> 90 then c + 32 else c)"

fun compare_units :: "jstring \<Rightarrow> jstring \<Rightarrow> int" where
  "compare_units [] [] = 0"
| "compare_units [] (y # ys) = -1"
| "compare_units (x # xs) [] = 1"
| "compare_units (x # xs) (y # ys) =
     (if x < y then -1 else if y < x then 1 else compare_units xs ys)"

definition ascii_platform :: platform where
  "ascii_platform =
     \<lparr> normalizeNFKD = (\<lambda>s. s), toLowerCase = map ascii_lower, localeCompare = compare_units \<rparr>"

section \<open>build\_blog.js\<close>

subsection \<open>slugify and ensureUniqueSlug\<close>

text \<open>
  \<open>.replace(/(^-|-$)/g, '')\<close>: a hyphen at the start of the string is removed, and a
  hyphen at its end (which the search reaches after the first removal).
\<close>

definition strip_edge_hyphens :: "jstring \<Rightarrow> jstring" where
  "strip_edge_hyphens s =
     (let s1 = (case s of [] \<Rightarrow> [] | c # cs \<Rightarrow> if c = 45 then cs else c # cs)
      in if s1 \<noteq> [] \<and> last s1 = 45 then butlast s1 else s1)"

definition is_combining_mark :: "nat \<Rightarrow> bool" where
  "is_combining_mark c \<longleftrightarrow> 768 \<le> c \<and> c \<le> 879"

definition slug_of_normalized :: "jstring \<Rightarrow> jstring" where
  "slug_of_normalized normalized =
     replace_g m_hyphens (\<lambda>_. js ''-'')
       (strip_edge_hyphens
         (replace_g (m_plus (\<lambda>c. \<not> is_lower_alnum c)) (\<lambda>_. js ''-'') normalized))"

definition normalized_name :: "platform \<Rightarrow> jstring \<Rightarrow> jstring" where
  "normalized_name pf input =
     toLowerCase pf (replace_g (m_one is_combining_mark) (\<lambda>_. []) (normalizeNFKD pf input))"

definition slugify :: "platform \<Rightarrow> jstring \<Rightarrow> jstring" where
  "slugify pf input =
     (let normalized = normalized_name pf input;
          s = slug_of_normalized normalized
      in if s = [] then js ''post'' else s)"

text \<open>
  The \<open>Map\<close> of slug counts is a partial function; \<open>ensureUniqueSlug\<close> returns the slug
  and the updated map.
\<close>

definition ensureUniqueSlug :: "jstring \<Rightarrow> (jstring \<rightharpoonup> nat) \<Rightarrow> jstring \<times> (jstring \<rightharpoonup> nat)" where
  "ensureUniqueSlug s m =
     (case m s of
        None \<Rightarrow> (s, m(s \<mapsto> 1))
      | Some count \<Rightarrow> (s @ js ''-'' @ toString count, m(s \<mapsto> count + 1)))"

subsection \<open>Text clean-up\<close>

definition trim :: "jstring \<Rightarrow> jstring" where
  "trim s = rev (dropWhile is_space (rev (dropWhile is_space s)))"

definition cleanupWhitespace :: "jstring \<Rightarrow> jstring" where
  "cleanupWhitespace text = trim (replace_g (m_plus is_space) (\<lambda>_. js '' '') text)"

definition stripHtml :: "jstring \<Rightarrow> jstring" where
  "stripHtml text = replace_g m_tag (\<lambda>_. []) text"

definition decodeEntities :: "jstring \<Rightarrow> jstring" where
  "decodeEntities text =
     (replace_g (m_alt (m_lit_ci (js ''&hellip;'')) (m_lit_ci (js ''&#8230;''))) (\<lambda>_. [8230])
     (replace_g (m_alt (m_lit_ci (js ''&mdash;'')) (m_lit_ci (js ''&#8212;''))) (\<lambda>_. [8212])
     (replace_g (m_alt (m_lit_ci (js ''&ndash;'')) (m_lit_ci (js ''&#8211;''))) (\<lambda>_. [8211])
     (replace_g (m_alt (m_lit_ci (js ''&rdquo;'')) (m_lit_ci (js ''&#8221;''))) (\<lambda>_. [8221])
     (replace_g (m_alt (m_lit_ci (js ''&ldquo;'')) (m_lit_ci (js ''&#8220;''))) (\<lambda>_. [8220])
     (replace_g (m_alt (m_lit_ci (js ''&lsquo;'')) (m_lit_ci (js ''&#8216;''))) (\<lambda>_. [8216])
     (replace_g (m_alt (m_lit_ci (js ''&rsquo;'')) (m_lit_ci (js ''&#8217;''))) (\<lambda>_. [8217])
     (replace_g (m_lit_ci (js ''&#39;'')) (\<lambda>_. [39])
     (replace_g (m_lit_ci (js ''&quot;'')) (\<lambda>_. [34])
     (replace_g (m_lit_ci (js ''&gt;'')) (\<lambda>_. js ''>'')
     (replace_g (m_lit_ci (js ''&lt;'')) (\<lambda>_. js ''<'')
     (replace_g (m_lit_ci (js ''&amp;'')) (\<lambda>_. js ''&'')
     (replace_g (m_lit_ci (js ''&nbsp;'')) (\<lambda>_. js '' '') text)))))))))))))"

subsection \<open>Extraction\<close>

definition extractTitle :: "jstring \<Rightarrow> jstring" where
  "extractTitle html =
     (case first_match (m_element (js ''title'')) html of
        Some titleMatch \<Rightarrow> cleanupWhitespace (decodeEntities (stripHtml titleMatch))
      | None \<Rightarrow>
          (case first_match (m_element (js ''h1'')) html of
             Some headingMatch \<Rightarrow> cleanupWhitespace (decodeEntities (stripHtml headingMatch))
           | None \<Rightarrow> []))"

definition extractDescription :: "jstring \<Rightarrow> jstring" where
  "extractDescription html =
     (case first_match m_meta html of
        Some metaMatch \<Rightarrow>
          (case first_match m_content metaMatch of
             Some contentMatch \<Rightarrow> cleanupWhitespace (decodeEntities contentMatch)
           | None \<Rightarrow> [])
      | None \<Rightarrow> [])"

definition extractFirstParagraph :: "jstring \<Rightarrow> jstring" where
  "extractFirstParagraph html =
     (case first_match (m_element (js ''p'')) html of
        Some paragraphMatch \<Rightarrow> cleanupWhitespace (decodeEntities (stripHtml paragraphMatch))
      | None \<Rightarrow> [])"

subsection \<open>shortenExcerpt\<close>

text \<open>
  \<open>shortenExcerpt\<close> is only called with its default \<open>maxLength = 200\<close>. The classes are
  \<open>[\s,;:]\<close> and \<open>["']\<close> with U+201C and U+201D; the appended code unit is the ellipsis U+2026.
\<close>

definition maxLength :: nat where
  "maxLength = 200"

definition is_trailing_punct :: "nat \<Rightarrow> bool" where
  "is_trailing_punct c \<longleftrightarrow> is_space c \<or> c = 44 \<or> c = 59 \<or> c = 58"

definition is_trailing_quote :: "nat \<Rightarrow> bool" where
  "is_trailing_quote c \<longleftrightarrow> c = 34 \<or> c = 39 \<or> c = 8220 \<or> c = 8221"

definition shortenExcerpt :: "jstring \<Rightarrow> jstring" where
  "shortenExcerpt text =
     (if length text \<le> maxLength then text
      else
        (let truncated = slice text 0 (int maxLength - 1);
             truncated = replace_first m_space_word_end [] truncated;
             truncated = replace_first (m_plus_end is_trailing_punct) [] truncated;
             truncated = replace_first (m_plus_end is_trailing_quote) [] truncated
         in truncated @ [8230]))"

subsection \<open>toTitleCase and escapeHtml\<close>

text \<open>
  The replacer of \<open>toTitleCase\<close> upper-cases the first code unit of a \<open>\w+\<close> match,
  which is an ASCII one.
\<close>

definition capitalize :: "jstring \<Rightarrow> jstring" where
  "capitalize word = (case word of [] \<Rightarrow> [] | c # cs \<Rightarrow> ascii_upper c # cs)"

definition toTitleCase :: "jstring \<Rightarrow> jstring" where
  "toTitleCase text = replace_g (m_plus is_word_char) capitalize text"

definition escapeHtml :: "jstring \<Rightarrow> jstring" where
  "escapeHtml text =
     (replace_g (m_char 39) (\<lambda>_. js ''&#39;'')
     (replace_g (m_char 34) (\<lambda>_. js ''&quot;'')
     (replace_g (m_char 62) (\<lambda>_. js ''&gt;'')
     (replace_g (m_char 60) (\<lambda>_. js ''&lt;'')
     (replace_g (m_char 38) (\<lambda>_. js ''&amp;'') text)))))"

subsection \<open>Posts and the listing markup\<close>

record post =
  slug :: jstring
  title :: jstring
  excerpt :: jstring
  href :: jstring

text \<open>\<open>lines.join('\n')\<close>.\<close>

fun join_lines :: "jstring list \<Rightarrow> jstring" where
  "join_lines [] = []"
| "join_lines [l] = l"
| "join_lines (l # l' # ls) = l @ [10] @ join_lines (l' # ls)"

text \<open>
  The six lines pushed for one post; the last of them is the empty separator line. The
  arrow of the link text is U+2192.
\<close>

definition post_lines :: "jstring \<Rightarrow> post \<Rightarrow> jstring list" where
  "post_lines indent p =
     [indent @ js ''  <article class=\"card shadow-lg overflow-hidden p-6 transition duration-300 transform hover:shadow-xl hover:-translate-y-1\">'',
      indent @ js ''    <h3 class=\"text-xl font-semibold mb-3\">'' @ escapeHtml (title p) @ js ''</h3>'',
      indent @ js ''    <p class=\"mb-4\">'' @ escapeHtml (excerpt p) @ js ''</p>'',
      indent @ js ''    <a href=\"'' @ href p @ js ''\" class=\"font-medium\">Read More '' @ [8594] @ js ''</a>'',
      indent @ js ''  </article>'',
      []]"

definition markup_lines :: "post list \<Rightarrow> jstring \<Rightarrow> jstring list" where
  "markup_lines posts indent =
     (let lines = [indent @ js ''<div class=\"grid md:grid-cols-3 gap-10\">''];
          lines =
            (if length posts = 0 then
               lines @ [indent @ js ''  <p class=\"text-gray-400\">No blog posts available yet. Check back soon!</p>'']
             else
               (let lines = lines @ concat (map (post_lines indent) posts)
                in if length posts > 0 then butlast lines else lines))
      in lines @ [indent @ js ''</div>''])"

definition generateBlogMarkup :: "post list \<Rightarrow> jstring \<Rightarrow> jstring" where
  "generateBlogMarkup posts indent = join_lines (markup_lines posts indent)"

subsection \<open>updateIndex\<close>

datatype error = BlogMarkersNotFound

definition startMarker :: jstring where
  "startMarker = js ''<!-- BLOG:START -->''"

definition endMarker :: jstring where
  "endMarker = js ''<!-- BLOG:END -->''"

text \<open>
  The indentation \<open>updateIndex\<close> computes from the line of the start marker:
  \<open>startLineStart\<close>, \<open>startIndent\<close> and \<open>indent\<close>. \<open>.replace(/[^\s]/g, '')\<close> removes
  every code unit that is not white space.
\<close>

definition marker_indent :: "jstring \<Rightarrow> int \<Rightarrow> jstring" where
  "marker_indent indexHtml startIndex =
     (let startLineStart = lastIndexOf indexHtml 10 startIndex;
          startIndent =
            (if startLineStart = -1 then [] else slice indexHtml (startLineStart + 1) startIndex);
          stripped = replace_g (m_one (\<lambda>c. \<not> is_space c)) (\<lambda>_. []) startIndent
      in if stripped = [] then startIndent else stripped)"

text \<open>
  \<open>updateIndex\<close> on the content read from the index document: the error thrown, or the
  content written back.
\<close>

definition updateIndex :: "jstring \<Rightarrow> post list \<Rightarrow> error + jstring" where
  "updateIndex indexHtml posts =
     (let startIndex = indexOf indexHtml startMarker;
          endIndex = indexOf indexHtml endMarker
      in if startIndex = -1 \<or> endIndex = -1 \<or> endIndex \<le> startIndex then Inl BlogMarkersNotFound
         else
           (let indent = marker_indent indexHtml startIndex;
                generated = generateBlogMarkup posts indent;
                before = slice indexHtml 0 (startIndex + int (length startMarker));
                after = slice_from indexHtml (endIndex + int (length endMarker))
            in Inr (before @ [10] @ generated @ [10] @ indent @ endMarker @ after)))"

subsection \<open>The manifest\<close>

text \<open>
  \<open>JSON.stringify(posts, null, 2)\<close> for an array of posts. In a string, the quote and
  the backslash are escaped with a backslash, the control characters below U+0020 by
  their short escape or by \<open>\u\<close> and four hexadecimal digits, and so is a surrogate that
  is not part of a pair.
\<close>

definition hex_digit :: "nat \<Rightarrow> nat" where
  "hex_digit d = (if d < 10 then 48 + d else 87 + d)"

definition unicode_escape :: "nat \<Rightarrow> jstring" where
  "unicode_escape c =
     [92, 117, hex_digit (c div 4096 mod 16), hex_digit (c div 256 mod 16),
      hex_digit (c div 16 mod 16), hex_digit (c mod 16)]"

definition is_high_surrogate :: "nat \<Rightarrow> bool" where
  "is_high_surrogate c \<longleftrightarrow> 55296 \<le> c \<and> c \<le> 56319"

definition is_low_surrogate :: "nat \<Rightarrow> bool" where
  "is_low_surrogate c \<longleftrightarrow> 56320 \<le> c \<and> c \<le> 57343"

fun json_quote_units :: "jstring \<Rightarrow> jstring" where
  "json_quote_units [] = []"
| "json_quote_units [c] =
     (if c = 8 then [92, 98] else if c = 9 then [92, 116] else if c = 10 then [92, 110]
      else if c = 12 then [92, 102] else if c = 13 then [92, 114]
      else if c = 34 then [92, 34] else if c = 92 then [92, 92]
      else if c < 32 \<or> is_high_surrogate c \<or> is_low_surrogate c then unicode_escape c
      else [c])"
| "json_quote_units (c # d # ds) =
     (if is_high_surrogate c \<and> is_low_surrogate d then c # d # json_quote_units ds
      else json_quote_units [c] @ json_quote_units (d # ds))"

definition json_quote :: "jstring \<Rightarrow> jstring" where
  "json_quote s = [34] @ json_quote_units s @ [34]"

fun join_with :: "jstring \<Rightarrow> jstring list \<Rightarrow> jstring" where
  "join_with sep [] = []"
| "join_with sep [l] = l"
| "join_with sep (l # l' # ls) = l @ sep @ join_with sep (l' # ls)"

definition json_post :: "post \<Rightarrow> jstring" where
  "json_post p =
     js ''{'' @ [10] @
     join_with (js '','' @ [10])
       [js ''    \"slug\": '' @ json_quote (slug p),
        js ''    \"title\": '' @ json_quote (title p),
        js ''    \"excerpt\": '' @ json_quote (excerpt p),
        js ''    \"href\": '' @ json_quote (href p)] @
     [10] @ js ''  }''"

definition json_stringify :: "post list \<Rightarrow> jstring" where
  "json_stringify posts =
     (if posts = [] then js ''[]''
      else js ''['' @ [10] @ join_with (js '','' @ [10]) (map (\<lambda>p. js ''  '' @ json_post p) posts) @
           [10] @ js '']'')"

subsection \<open>main\<close>

text \<open>
  A directory entry of \<open>drafts/\<close> with the text \<open>readFile\<close> returns for it. The state is
  what the build writes to: the files of \<open>blog/\<close> by name, and the content of
  \<open>index.html\<close>. The file system calls themselves are taken to succeed.
\<close>

record dirent =
  name :: jstring
  isFile :: bool
  contents :: jstring

record site =
  blog_files :: "jstring \<rightharpoonup> jstring"
  index_html :: jstring

text \<open>
  The title and the excerpt of a post, as the loop computes them from the text of the
  draft and its slug: \<open>extractTitle(html) || toTitleCase(slug.replace(/-/g, ' '))\<close>, cleaned
  up when the post is built, and the shortened description or first paragraph.
\<close>

definition post_title :: "jstring \<Rightarrow> jstring \<Rightarrow> jstring" where
  "post_title html sl =
     (let extracted = extractTitle html;
          ttl = (if extracted \<noteq> [] then extracted
                 else toTitleCase (replace_g (m_char 45) (\<lambda>_. js '' '') sl))
      in cleanupWhitespace ttl)"

definition post_excerpt :: "jstring \<Rightarrow> jstring" where
  "post_excerpt html =
     (let description = extractDescription html;
          paragraph = extractFirstParagraph html;
          excerptSource =
            (if description \<noteq> [] then description
             else if paragraph \<noteq> [] then paragraph else [])
      in shortenExcerpt (cleanupWhitespace excerptSource))"

text \<open>The body of the \<open>for\<close> loop, on the slug counts, the posts and the files of \<open>blog/\<close>.\<close>

definition process_entry ::
  "platform \<Rightarrow> dirent \<Rightarrow> (jstring \<rightharpoonup> nat) \<times> post list \<times> (jstring \<rightharpoonup> jstring) \<Rightarrow>
     (jstring \<rightharpoonup> nat) \<times> post list \<times> (jstring \<rightharpoonup> jstring)" where
  "process_entry pf entry st =
     (case st of (slugCounts, posts, files) \<Rightarrow>
        if \<not> isFile entry then st
        else if \<not> endsWith (toLowerCase pf (name entry)) (js ''.html'') then st
        else
          (let html = contents entry;
               baseName = replace_first m_html_ext [] (name entry);
               baseSlug = slugify pf baseName;
               (sl, slugCounts) = ensureUniqueSlug baseSlug slugCounts;
               files = files(sl @ js ''.html'' \<mapsto> html)
           in (slugCounts,
               posts @ [\<lparr> slug = sl, title = post_title html sl, excerpt = post_excerpt html,
                          href = js ''blog/'' @ sl @ js ''.html'' \<rparr>],
               files)))"

text \<open>
  \<open>posts.sort\<close> is stable; with a comparison that is a total preorder, as
  \<open>localeCompare\<close> is, its result is that of a stable insertion sort.
\<close>

fun insert_post :: "(jstring \<Rightarrow> jstring \<Rightarrow> int) \<Rightarrow> post \<Rightarrow> post list \<Rightarrow> post list" where
  "insert_post cmp p [] = [p]"
| "insert_post cmp p (q # qs) =
     (if cmp (title p) (title q) \<le> 0 then p # q # qs else q # insert_post cmp p qs)"

definition sort_posts :: "(jstring \<Rightarrow> jstring \<Rightarrow> int) \<Rightarrow> post list \<Rightarrow> post list" where
  "sort_posts cmp ps = foldr (insert_post cmp) ps []"

definition scan_drafts ::
  "platform \<Rightarrow> dirent list \<Rightarrow> (jstring \<rightharpoonup> jstring) \<Rightarrow>
     (jstring \<rightharpoonup> nat) \<times> post list \<times> (jstring \<rightharpoonup> jstring)" where
  "scan_drafts pf entries files = foldl (\<lambda>st entry. process_entry pf entry st) (Map.empty, [], files) entries"

text \<open>
  \<open>main\<close>: the error it ends with, if any, and the state it leaves.
\<close>

definition main :: "platform \<Rightarrow> dirent list \<Rightarrow> site \<Rightarrow> error option \<times> site" where
  "main pf entries st =
     (case scan_drafts pf entries (blog_files st) of (slugCounts, posts, files) \<Rightarrow>
        (let posts = sort_posts (localeCompare pf) posts;
             files = files(js ''posts.json'' \<mapsto> json_stringify posts @ [10])
         in case updateIndex (index_html st) posts of
              Inl e \<Rightarrow> (Some e, st\<lparr> blog_files := files \<rparr>)
            | Inr replacement \<Rightarrow> (None, \<lparr> blog_files = files, index_html = replacement \<rparr>)))"

section \<open>Properties\<close>

subsection \<open>Well-formed slugs\<close>

text \<open>
  A well-formed slug is not empty, consists of lower-case ASCII letters, digits and
  hyphens, neither starts nor ends with a hyphen, and has no two hyphens in a row.
\<close>

fun no_double_hyphen :: "jstring \<Rightarrow> bool" where
  "no_double_hyphen (a # b # cs) \<longleftrightarrow> \<not> (a = 45 \<and> b = 45) \<and> no_double_hyphen (b # cs)"
| "no_double_hyphen _ \<longleftrightarrow> True"

definition is_slug_char :: "nat \<Rightarrow> bool" where
  "is_slug_char c \<longleftrightarrow> is_lower_alnum c \<or> c = 45"

definition valid_slug :: "jstring \<Rightarrow> bool" where
  "valid_slug s \<longleftrightarrow>
     s \<noteq> [] \<and> list_all is_slug_char s \<and> hd s \<noteq> 45 \<and> last s \<noteq> 45 \<and> no_double_hyphen s"

text \<open>The base name of a draft, and three drafts whose slugs collide.\<close>

definition launch_drafts :: "dirent list" where
  "launch_drafts =
     [\<lparr> name = js ''launch.html'', isFile = True, contents = js ''<p>one</p>'' \<rparr>,
      \<lparr> name = js ''launch!.html'', isFile = True, contents = js ''<p>two</p>'' \<rparr>,
      \<lparr> name = js ''launch-1.html'', isFile = True, contents = js ''<p>three</p>'' \<rparr>]"

subsection \<open>Escaping\<close>



subsection \<open>The line of the start marker\<close>

text \<open>
  The text that stands before position \<open>i\<close> on its line, and the white space a line
  starts with.
\<close>

definition line_prefix :: "jstring \<Rightarrow> nat \<Rightarrow> jstring" where
  "line_prefix s i = rev (takeWhile (\<lambda>c. c \<noteq> 10) (rev (take i s)))"

definition leading_space :: "jstring \<Rightarrow> jstring" where
  "leading_space l = takeWhile is_space l"


text \<open>An index document and a manifest of two posts.\<close>

definition sample_index :: jstring where
  "sample_index = js ''<x>'' @ [10] @ js ''  <!-- BLOG:START -->old<!-- BLOG:END -->tail''"

definition first_post :: post where
  "first_post = \<lparr> slug = js ''a'', title = js ''A'', excerpt = js ''first'', href = js ''blog/a.html'' \<rparr>"

definition second_post :: post where
  "second_post = \<lparr> slug = js ''b'', title = js ''B'', excerpt = js ''second'', href = js ''blog/b.html'' \<rparr>"

definition two_posts :: "post list" where
  "two_posts = [first_post, second_post]"

subsection \<open>What a build writes\<close>

text \<open>
  The manifest and the files a build of the drafts writes to \<open>blog/\<close>, taken from a
  run that starts on an empty directory; a draft and a site without markers.
\<close>

definition manifest_text :: "platform \<Rightarrow> dirent list \<Rightarrow> jstring" where
  "manifest_text pf es =
     json_stringify (sort_posts (localeCompare pf) (fst (snd (scan_drafts pf es Map.empty)))) @ [10]"

definition written_files :: "platform \<Rightarrow> dirent list \<Rightarrow> (jstring \<rightharpoonup> jstring)" where
  "written_files pf es = (snd (snd (scan_drafts pf es Map.empty)))(js ''posts.json'' \<mapsto> manifest_text pf es)"


definition one_draft :: "dirent list" where
  "one_draft = [\<lparr> name = js ''a.html'', isFile = True, contents = js ''<p>x</p>'' \<rparr>]"

definition unmarked_site :: site where
  "unmarked_site = \<lparr> blog_files = Map.empty, index_html = js ''<html></html>'' \<rparr>"


subsection \<open>Excerpts\<close>




subsection \<open>Normalised white space\<close>

text \<open>
  In a single-spaced text every white space code unit is a space that is followed by a
  code unit that is not white space, or by the end of the text.
\<close>

fun single_spaced :: "jstring \<Rightarrow> bool" where
  "single_spaced (c # d # cs) \<longleftrightarrow> (is_space c \<longrightarrow> c = 32 \<and> \<not> is_space d) \<and> single_spaced (d # cs)"
| "single_spaced [c] \<longleftrightarrow> (is_space c \<longrightarrow> c = 32)"
| "single_spaced [] \<longleftrightarrow> True"

subsection \<open>Titles\<close>

text \<open>
  The content of the \<open><title>\<close> element and of the first \<open><h1>\<close> element, when the
  patterns of \<open>extractTitle\<close> find one; the clean-up \<open>extractTitle\<close> applies to it; and the
  fallback title made from the slug. \<open>stated_title\<close> resolves the title by presence
  alone; \<open>resolved_title\<close> also falls back to the slug when the content of the element
  it selects is empty after clean-up.
\<close>

definition title_element :: "jstring \<Rightarrow> jstring option" where
  "title_element html = first_match (m_element (js ''title'')) html"

definition heading_element :: "jstring \<Rightarrow> jstring option" where
  "heading_element html = first_match (m_element (js ''h1'')) html"

definition clean_text :: "jstring \<Rightarrow> jstring" where
  "clean_text t = cleanupWhitespace (decodeEntities (stripHtml t))"

definition humanized_slug :: "jstring \<Rightarrow> jstring" where
  "humanized_slug sl = cleanupWhitespace (toTitleCase (replace_g (m_char 45) (\<lambda>_. js '' '') sl))"

definition stated_title :: "jstring \<Rightarrow> jstring \<Rightarrow> jstring" where
  "stated_title html sl =
     (case title_element html of
        Some t \<Rightarrow> clean_text t
      | None \<Rightarrow> (case heading_element html of Some h \<Rightarrow> clean_text h | None \<Rightarrow> humanized_slug sl))"

definition resolved_title :: "jstring \<Rightarrow> jstring \<Rightarrow> jstring" where
  "resolved_title html sl =
     (case title_element html of
        Some t \<Rightarrow> if clean_text t \<noteq> [] then clean_text t else humanized_slug sl
      | None \<Rightarrow>
          (case heading_element html of
             Some h \<Rightarrow> if clean_text h \<noteq> [] then clean_text h else humanized_slug sl
           | None \<Rightarrow> humanized_slug sl))"

definition blank_title_page :: jstring where
  "blank_title_page = js ''<title> </title><h1>Hi</h1>''"

definition empty_title_page :: jstring where
  "empty_title_page = js ''<title></title><h1>Hi</h1>''"


section \<open>Slugs\<close>

lemma js_hyphen [simp]: "js ''-'' = [45]"
  by (simp add: js_def)

lemma not_alnum_hyphen [simp]: "\<not> is_lower_alnum 45"
  by (simp add: is_lower_alnum_def)

lemma drop_takeWhile_eq: "drop (length (takeWhile P xs)) xs = dropWhile P xs"
  by (metis append_eq_conv_conj takeWhile_dropWhile_id)

lemma replace_plus_Cons:
  "replace_g (m_plus P) (\<lambda>_. rep) (c # cs) =
     (if P c then rep @ replace_g (m_plus P) (\<lambda>_. rep) (dropWhile P cs)
      else c # replace_g (m_plus P) (\<lambda>_. rep) cs)"
  by (cases "P c") (simp_all add: replace_g.simps(2) m_plus_def Let_def drop_takeWhile_eq)

lemma length_dropWhile_less: "length (dropWhile P cs) < Suc (length cs)"
  by (simp add: le_imp_less_Suc length_dropWhile_le)

text \<open>After the first replacement: slug characters only, hyphens isolated.\<close>

lemma hyphenate_props:
  "list_all is_slug_char (replace_g (m_plus (\<lambda>c. \<not> is_lower_alnum c)) (\<lambda>_. [45]) s) \<and>
   no_double_hyphen (replace_g (m_plus (\<lambda>c. \<not> is_lower_alnum c)) (\<lambda>_. [45]) s) \<and>
   (\<forall>c cs. s = c # cs \<and> is_lower_alnum c \<longrightarrow>
      hd (replace_g (m_plus (\<lambda>c. \<not> is_lower_alnum c)) (\<lambda>_. [45]) s) = c \<and> replace_g (m_plus (\<lambda>c. \<not> is_lower_alnum c)) (\<lambda>_. [45]) s \<noteq> [])"
proof (induction "length s" arbitrary: s rule: less_induct)
  case less
  let ?h = "replace_g (m_plus (\<lambda>c. \<not> is_lower_alnum c)) (\<lambda>_. [45])"
  show ?case
  proof (cases s)
    case Nil
    then show ?thesis by simp
  next
    case (Cons c cs)
    show ?thesis
    proof (cases "is_lower_alnum c")
      case True
      have ih: "list_all is_slug_char (?h cs) \<and> no_double_hyphen (?h cs)"
        using less [of cs] Cons by simp
      have eq: "?h s = c # ?h cs"
        using True Cons by (simp add: replace_plus_Cons)
      have "no_double_hyphen (c # ?h cs)"
        using ih True by (cases "?h cs") auto
      then show ?thesis
        using ih True eq Cons by (simp add: is_slug_char_def)
    next
      case False
      let ?r = "dropWhile (\<lambda>c. \<not> is_lower_alnum c) cs"
      have len: "length ?r < length s"
        using Cons length_dropWhile_less [of _ cs] by simp
      have ih: "list_all is_slug_char (?h ?r) \<and> no_double_hyphen (?h ?r) \<and>
          (\<forall>c cs. ?r = c # cs \<and> is_lower_alnum c \<longrightarrow> hd (?h ?r) = c \<and> ?h ?r \<noteq> [])"
        using less [OF len] by simp
      have eq: "?h s = 45 # ?h ?r"
        using False Cons by (simp add: replace_plus_Cons)
      have hdr: "?r = [] \<or> is_lower_alnum (hd ?r)"
        using hd_dropWhile [of "\<lambda>c. \<not> is_lower_alnum c" cs] by auto
      have "no_double_hyphen (45 # ?h ?r)"
      proof (cases ?r)
        case Nil
        show ?thesis unfolding Nil by simp
      next
        case (Cons d ds)
        then have d: "is_lower_alnum d" using hdr by simp
        then have "hd (?h ?r) = d \<and> ?h ?r \<noteq> []" using ih Cons by simp
        then show ?thesis using ih d by (cases "?h ?r") auto
      qed
      then show ?thesis
        using ih False eq Cons by (simp add: is_slug_char_def)
    qed
  qed
qed

lemma no_double_hyphen_tl: "no_double_hyphen (c # cs) \<Longrightarrow> no_double_hyphen cs"
  by (cases cs) auto

lemma no_double_hyphen_butlast: "no_double_hyphen s \<Longrightarrow> no_double_hyphen (butlast s)"
  by (induction s rule: no_double_hyphen.induct) (auto split: if_splits)

lemma no_double_hyphen_last:
  "no_double_hyphen s \<Longrightarrow> last s = 45 \<Longrightarrow> butlast s \<noteq> [] \<Longrightarrow> last (butlast s) \<noteq> 45"
  by (induction s rule: no_double_hyphen.induct) (auto split: if_splits)

lemma strip_edge_hyphens_props:
  assumes "list_all is_slug_char s" and "no_double_hyphen s"
  shows "list_all is_slug_char (strip_edge_hyphens s)"
    and "no_double_hyphen (strip_edge_hyphens s)"
    and "strip_edge_hyphens s \<noteq> [] \<Longrightarrow> hd (strip_edge_hyphens s) \<noteq> 45 \<and> last (strip_edge_hyphens s) \<noteq> 45"
proof -
  define s1 where "s1 = (case s of [] \<Rightarrow> [] | c # cs \<Rightarrow> if c = 45 then cs else c # cs)"
  have s1: "list_all is_slug_char s1" "no_double_hyphen s1" "s1 \<noteq> [] \<Longrightarrow> hd s1 \<noteq> 45"
    using assms unfolding s1_def
    by (auto split: list.splits dest: no_double_hyphen_tl) (case_tac x22, auto)
  have eq: "strip_edge_hyphens s = (if s1 \<noteq> [] \<and> last s1 = 45 then butlast s1 else s1)"
    by (simp add: strip_edge_hyphens_def s1_def)
  show "list_all is_slug_char (strip_edge_hyphens s)"
    using s1(1) by (auto simp: eq list_all_iff dest: in_set_butlastD)
  show "no_double_hyphen (strip_edge_hyphens s)"
    using s1(2) by (simp add: eq no_double_hyphen_butlast)
  show "hd (strip_edge_hyphens s) \<noteq> 45 \<and> last (strip_edge_hyphens s) \<noteq> 45"
    if "strip_edge_hyphens s \<noteq> []"
  proof (cases "s1 \<noteq> [] \<and> last s1 = 45")
    case True
    then have ne: "butlast s1 \<noteq> []" using that eq by simp
    have "hd (butlast s1) = hd s1" using ne by (cases s1) auto
    then show ?thesis
      using True ne s1 eq no_double_hyphen_last [of s1] by simp
  next
    case False
    then show ?thesis using that s1 eq by auto
  qed
qed

lemma m_hyphens_None: "no_double_hyphen s \<Longrightarrow> m_hyphens s = None"
  by (induction s rule: no_double_hyphen.induct) (auto simp: m_hyphens_def)

lemma replace_hyphens_id: "no_double_hyphen s \<Longrightarrow> replace_g m_hyphens f s = s"
proof (induction s)
  case Nil
  then show ?case by simp
next
  case (Cons c cs)
  then show ?case
    using m_hyphens_None [of "c # cs"] no_double_hyphen_tl [of c cs] by (simp add: replace_g.simps(2))
qed

lemma slug_of_normalized_props:
  "slug_of_normalized n = [] \<or> valid_slug (slug_of_normalized n)"
proof -
  let ?h = "replace_g (m_plus (\<lambda>c. \<not> is_lower_alnum c)) (\<lambda>_. [45]) n"
  have h: "list_all is_slug_char ?h" "no_double_hyphen ?h"
    using hyphenate_props [of n] by simp_all
  have eq: "slug_of_normalized n = strip_edge_hyphens ?h"
    using strip_edge_hyphens_props(2) [OF h]
    by (simp add: slug_of_normalized_def replace_hyphens_id)
  show ?thesis
    using strip_edge_hyphens_props [OF h] by (auto simp: eq valid_slug_def)
qed

lemma valid_slug_post: "valid_slug (js ''post'')"
  by (simp add: valid_slug_def js_def is_slug_char_def is_lower_alnum_def)

lemma toString_digits: "toString k \<noteq> [] \<and> list_all (\<lambda>c. 48 \<le> c \<and> c \<le> 57) (toString k)"
proof (induction k rule: toString.induct)
  case (1 n)
  show ?case
  proof (cases "n < 10")
    case True
    then show ?thesis by (simp add: toString.simps [of n])
  next
    case False
    then show ?thesis using 1 by (simp add: toString.simps [of n])
  qed
qed

lemma no_double_hyphen_append:
  "no_double_hyphen s \<Longrightarrow> s \<noteq> [] \<Longrightarrow> last s \<noteq> 45 \<Longrightarrow> no_double_hyphen t \<Longrightarrow> no_double_hyphen (s @ t)"
proof (induction s)
  case Nil
  then show ?case by simp
next
  case (Cons a s)
  show ?case
  proof (cases s)
    case Nil
    then show ?thesis using Cons.prems by (cases t) auto
  next
    case (Cons b cs)
    then show ?thesis using Cons.IH Cons.prems by auto
  qed
qed

lemma digits_no_double: "list_all (\<lambda>c. 48 \<le> c \<and> c \<le> (57::nat)) d \<Longrightarrow> no_double_hyphen (x # d)"
  by (induction d arbitrary: x) auto

lemma valid_slug_suffix:
  assumes "valid_slug s"
  shows "valid_slug (s @ js ''-'' @ toString k)"
proof -
  let ?d = "toString k"
  have d: "?d \<noteq> []" "list_all (\<lambda>c. 48 \<le> c \<and> c \<le> 57) ?d"
    using toString_digits [of k] by simp_all
  have "list_all is_slug_char ?d"
    using d(2) by (auto simp: list_all_iff is_slug_char_def is_lower_alnum_def)
  moreover have "48 \<le> last ?d"
    using d(2) last_in_set [OF d(1)] unfolding list_all_iff by blast
  then have "last ?d \<noteq> 45" by simp
  moreover note this
  moreover have "no_double_hyphen (s @ 45 # ?d)"
    using assms digits_no_double [OF d(2)] by (simp add: valid_slug_def no_double_hyphen_append)
  ultimately show ?thesis
    using assms d(1) by (simp add: valid_slug_def is_slug_char_def)
qed

lemma slugify_valid: "valid_slug (slugify pf input)"
  using slug_of_normalized_props [of "normalized_name pf input"]
  by (auto simp: slugify_def Let_def valid_slug_post)

lemma unique_slug_valid: "valid_slug (fst (ensureUniqueSlug (slugify pf input) m))"
  using slugify_valid [of pf input] valid_slug_suffix [of "slugify pf input"]
  by (simp add: ensureUniqueSlug_def split: option.splits)

lemma process_entry_accepted:
  assumes "isFile e" and "endsWith (toLowerCase pf (name e)) (js ''.html'')"
  shows "fst (process_entry pf e st) =
           snd (ensureUniqueSlug (slugify pf (replace_first m_html_ext [] (name e))) (fst st))"
    and "map slug (fst (snd (process_entry pf e st))) =
           map slug (fst (snd st)) @
           [fst (ensureUniqueSlug (slugify pf (replace_first m_html_ext [] (name e))) (fst st))]"
  using assms by (simp_all add: process_entry_def Let_def split: prod.splits)

lemma launch_names:
  "endsWith (toLowerCase ascii_platform (js ''launch.html'')) (js ''.html'')"
  "endsWith (toLowerCase ascii_platform (js ''launch!.html'')) (js ''.html'')"
  "endsWith (toLowerCase ascii_platform (js ''launch-1.html'')) (js ''.html'')"
  "slugify ascii_platform (replace_first m_html_ext [] (js ''launch.html'')) = js ''launch''"
  "slugify ascii_platform (replace_first m_html_ext [] (js ''launch!.html'')) = js ''launch''"
  "slugify ascii_platform (replace_first m_html_ext [] (js ''launch-1.html'')) = js ''launch-1''"
  by code_simp+

lemma launch_literals:
  "js ''launch'' \<noteq> js ''launch-1''" "js ''launch-1'' \<noteq> js ''launch''"
  "js ''launch'' @ 45 # toString (Suc 0) = js ''launch-1''"
  by code_simp+

lemma launch_slugs:
  "map slug (fst (snd (scan_drafts ascii_platform launch_drafts Map.empty))) =
     [js ''launch'', js ''launch-1'', js ''launch-1'']"
  by (simp add: scan_drafts_def launch_drafts_def process_entry_accepted launch_names
      ensureUniqueSlug_def launch_literals)

text \<open>
  C1. The slugs of a build are not always pairwise distinct. The drafts \<open>launch.html\<close>,
  \<open>launch!.html\<close> and \<open>launch-1.html\<close>, scanned in this order, have the base slugs
  \<open>launch\<close>, \<open>launch\<close> and \<open>launch-1\<close>. The second one collides and gets the suffix
  \<open>-1\<close>; the third is new to the map of counts, which records base slugs only, and keeps
  its bare slug \<open>launch-1\<close>: two posts share a slug.
\<close>

theorem slug_collision:
  "map slug (fst (snd (scan_drafts ascii_platform launch_drafts Map.empty))) =
     [js ''launch'', js ''launch-1'', js ''launch-1''] \<and>
   \<not> distinct (map slug (fst (snd (scan_drafts ascii_platform launch_drafts Map.empty))))"
  unfolding launch_slugs by simp

lemma empty_name_normalized: "slug_of_normalized (normalized_name ascii_platform (js ''!!!'')) = []"
  by code_simp

text \<open>
  C9. Every slug \<open>slugify\<close> returns is well formed, and so is the slug
  \<open>ensureUniqueSlug\<close> makes of it, with or without a suffix. When the normalised name
  collapses to the empty string, \<open>slugify\<close> returns the placeholder \<open>post\<close>, which then
  goes through \<open>ensureUniqueSlug\<close> as any other slug; otherwise it returns the collapsed
  name.
\<close>

theorem slugs_wellformed:
  "valid_slug (slugify pf input) \<and>
   (slug_of_normalized (normalized_name pf input) = [] \<longrightarrow> slugify pf input = js ''post'') \<and>
   (slug_of_normalized (normalized_name pf input) \<noteq> [] \<longrightarrow>
      slugify pf input = slug_of_normalized (normalized_name pf input)) \<and>
   valid_slug (fst (ensureUniqueSlug (slugify pf input) m))"
  using slugify_valid [of pf input] unique_slug_valid [of pf input m]
  by (simp add: slugify_def Let_def)

theorem slugs_wellformed_witness:
  "valid_slug (js ''post'') \<and> slugify ascii_platform (js ''!!!'') = js ''post'' \<and>
   valid_slug (fst (ensureUniqueSlug (js ''post'') [js ''post'' \<mapsto> 3]))"
proof -
  note w = slugs_wellformed [of ascii_platform "js ''!!!''" "[js ''post'' \<mapsto> 3]"]
  have p: "slugify ascii_platform (js ''!!!'') = js ''post''"
    using w empty_name_normalized by blast
  show ?thesis
    using w unfolding p by blast
qed

section \<open>Escaping in the listing markup\<close>











section \<open>Patching the index document\<close>

lemma find_sub_Some:
  "find_sub pat s = Some i \<Longrightarrow> take (length pat) (drop i s) = pat \<and> i + length pat \<le> length s"
proof (induction s arbitrary: i)
  case Nil
  then show ?case by (simp split: if_splits)
next
  case (Cons c cs)
  show ?case
  proof (cases "starts_with pat (c # cs)")
    case True
    then have "take (length pat) (c # cs) = pat" by (simp add: starts_with_def)
    moreover from this have "length (take (length pat) (c # cs)) = length pat"
      by simp
    then have "length pat \<le> length (c # cs)"
      by (simp del: length_Cons)
    ultimately show ?thesis using Cons.prems True by simp
  next
    case False
    then obtain j where "find_sub pat cs = Some j" "i = Suc j"
      using Cons.prems by auto
    then show ?thesis using Cons.IH [of j] by simp
  qed
qed

lemma occurrence_nth:
  assumes "take (length pat) (drop i s) = pat" and "k < length pat"
  shows "s ! (i + k) = pat ! k"
proof -
  have "length (take (length pat) (drop i s)) = length pat"
    using assms(1) by simp
  then have le: "i + length pat \<le> length s"
    using assms(2) by simp
  have "pat ! k = take (length pat) (drop i s) ! k"
    using assms(1) by simp
  also have "\<dots> = drop i s ! k"
    using assms(2) by simp
  also have "\<dots> = s ! (i + k)"
    using le by simp
  finally show ?thesis by simp
qed

lemma startMarker_length [simp]: "length startMarker = 19"
  by (simp add: startMarker_def js_def)

lemma endMarker_length [simp]: "length endMarker = 17"
  by (simp add: endMarker_def js_def)

lemma startMarker_inner: "0 < d \<Longrightarrow> d < 19 \<Longrightarrow> startMarker ! d \<noteq> 60"
proof -
  assume d: "0 < d" "d < 19"
  have "60 \<notin> set (tl startMarker)"
    by (simp add: startMarker_def js_def)
  moreover have "tl startMarker ! (d - 1) \<in> set (tl startMarker)"
    using d by (intro nth_mem) simp
  moreover have "tl startMarker ! (d - 1) = startMarker ! d"
    using d by (simp add: nth_tl)
  ultimately show ?thesis by metis
qed

lemma markers_disjoint:
  assumes "find_sub startMarker s = Some si" and "find_sub endMarker s = Some ei" and "si < ei"
  shows "si + 19 \<le> ei"
proof (rule ccontr)
  assume "\<not> si + 19 \<le> ei"
  then have d: "0 < ei - si" "ei - si < 19" using assms(3) by auto
  have st: "take (length startMarker) (drop si s) = startMarker"
    and en: "take (length endMarker) (drop ei s) = endMarker"
    using find_sub_Some assms by blast+
  have "si + (ei - si) = ei"
    using assms(3) by simp
  then have "s ! ei = startMarker ! (ei - si)"
    using occurrence_nth [OF st, of "ei - si"] d by simp
  moreover have "s ! ei = endMarker ! 0"
    using occurrence_nth [OF en, of 0] by simp
  moreover have "endMarker ! 0 = 60"
    by (simp add: endMarker_def js_def)
  ultimately show False
    using startMarker_inner [OF d] assms(3) by simp
qed

lemma indexOf_nat: "indexOf s pat = int i \<longleftrightarrow> find_sub pat s = Some i"
  by (simp add: indexOf_def split: option.splits)

lemma slice_take: "n \<le> length s \<Longrightarrow> slice s 0 (int n) = take n s"
  by (simp add: slice_def slice_index_def)

lemma slice_from_drop: "slice_from s (int n) = drop n s"
  by (cases "n \<le> length s") (simp_all add: slice_from_def slice_index_def min_def)

lemma updateIndex_found:
  assumes "indexOf idx startMarker = int si" and "indexOf idx endMarker = int ei" and "si < ei"
  shows "updateIndex idx posts =
           Inr (take si idx @ startMarker @ [10] @ generateBlogMarkup posts (marker_indent idx (int si)) @
                [10] @ marker_indent idx (int si) @ endMarker @ drop (ei + length endMarker) idx)"
    and "idx = take si idx @ startMarker @ take (ei - (si + length startMarker)) (drop (si + length startMarker) idx) @
                endMarker @ drop (ei + length endMarker) idx"
proof -
  have fs: "find_sub startMarker idx = Some si" and fe: "find_sub endMarker idx = Some ei"
    using assms by (simp_all add: indexOf_nat)
  have st: "take 19 (drop si idx) = startMarker" "si + 19 \<le> length idx"
    using find_sub_Some [OF fs] by simp_all
  have en: "take 17 (drop ei idx) = endMarker" "ei + 17 \<le> length idx"
    using find_sub_Some [OF fe] by simp_all
  have dj: "si + 19 \<le> ei"
    using markers_disjoint [OF fs fe assms(3)] .
  have before: "take (si + 19) idx = take si idx @ startMarker"
    using st(1) by (simp add: take_add)
  have "slice idx 0 (int si + 19) = take (si + 19) idx"
    using slice_take [of "si + 19" idx] st(2) by simp
  moreover have "slice_from idx (int ei + 17) = drop (ei + 17) idx"
    using slice_from_drop [of idx "ei + 17"] by simp
  ultimately show "updateIndex idx posts =
           Inr (take si idx @ startMarker @ [10] @ generateBlogMarkup posts (marker_indent idx (int si)) @
                [10] @ marker_indent idx (int si) @ endMarker @ drop (ei + length endMarker) idx)"
    using assms by (simp add: updateIndex_def Let_def before)
  have "idx = take (si + 19) idx @ drop (si + 19) idx" by simp
  also have "drop (si + 19) idx = take (ei - (si + 19)) (drop (si + 19) idx) @ drop ei idx"
  proof -
    have "drop (ei - (si + 19)) (drop (si + 19) idx) = drop ei idx"
      using dj by simp
    then show ?thesis
      by (metis append_take_drop_id)
  qed
  also have "drop ei idx = take 17 (drop ei idx) @ drop (ei + 17) idx"
  proof -
    have "drop 17 (drop ei idx) = drop (ei + 17) idx"
      by (simp add: add.commute)
    then show ?thesis
      by (metis append_take_drop_id)
  qed
  finally show "idx = take si idx @ startMarker @ take (ei - (si + length startMarker)) (drop (si + length startMarker) idx) @
                endMarker @ drop (ei + length endMarker) idx"
    using en(1) before by simp
qed


lemma replace_one_filter: "replace_g (m_one P) (\<lambda>_. []) s = filter (\<lambda>c. \<not> P c) s"
  by (induction s) (simp_all add: replace_g.simps(2) m_one_def)

lemma filter_rev_upt_none: "(\<forall>j<n. \<not> P j) \<Longrightarrow> filter P (rev [0..<n]) = []"
  by (induction n) simp_all

lemma filter_rev_upt_last:
  "i < n \<Longrightarrow> P i \<Longrightarrow> (\<forall>j. i < j \<and> j < n \<longrightarrow> \<not> P j) \<Longrightarrow> \<exists>rest. filter P (rev [0..<n]) = i # rest"
proof (induction n)
  case 0
  then show ?case by simp
next
  case (Suc n)
  show ?case
  proof (cases "i = n")
    case True
    then show ?thesis using Suc.prems by simp
  next
    case False
    then have "i < n" using Suc.prems by simp
    moreover have "\<not> P n" using Suc.prems False by simp
    ultimately show ?thesis using Suc by simp
  qed
qed

lemma slice_index_nat: "slice_index s (int n) = min n (length s)"
  by (simp add: slice_index_def min_def)

lemma marker_indent_line:
  assumes idx: "idx = a @ 10 # b @ 60 # rest" and b: "10 \<notin> set b"
  shows "marker_indent idx (int (length a + 1 + length b)) =
           (if filter is_space b = [] then b else filter is_space b)"
    and "line_prefix idx (length a + 1 + length b) = b"
proof -
  let ?si = "length a + 1 + length b"
  have len: "?si < length idx" using idx by simp
  have at_a: "idx ! length a = 10" using idx by simp
  have later: "idx ! j \<noteq> 10" if "length a < j" "j < ?si + 1" for j
  proof (cases "j = ?si")
    case True
    have "idx ! ?si = ((a @ 10 # b) @ 60 # rest) ! length (a @ 10 # b)"
      using idx by simp
    then have "idx ! ?si = 60"
      by (simp only: nth_append_length)
    then show ?thesis using True by simp
  next
    case False
    then have j: "j - length a - 1 < length b" using that by simp
    have "idx ! j = (10 # b @ 60 # rest) ! (j - length a)"
      using idx that by (simp add: nth_append)
    also have "\<dots> = (b @ 60 # rest) ! (j - length a - 1)"
      using that by (simp add: nth_Cons')
    also have "\<dots> = b ! (j - length a - 1)"
      using j by (simp add: nth_append)
    finally show ?thesis using b j nth_mem by metis
  qed
  obtain more where "filter (\<lambda>i. idx ! i = 10) (rev [0..<?si + 1]) = length a # more"
    using filter_rev_upt_last [of "length a" "?si + 1" "\<lambda>i. idx ! i = 10"] at_a later by auto
  moreover have "min (nat (int ?si + 1)) (length idx) = ?si + 1"
    using len by simp
  ultimately have li: "lastIndexOf idx 10 (int ?si) = int (length a)"
    unfolding lastIndexOf_def by (simp only: list.case)
  have "drop (length a + 1) idx = b @ 60 # rest"
    using idx by simp
  then have "take (?si - (length a + 1)) (drop (length a + 1) idx) = b"
    by simp
  moreover have "int (length a) + 1 = int (length a + 1)"
    by simp
  then have "slice_index idx (int (length a) + 1) = length a + 1"
    using slice_index_nat [of idx "length a + 1"] len by (simp only: min_def) simp
  moreover have "slice_index idx (int ?si) = ?si"
    using slice_index_nat [of idx ?si] len by simp
  ultimately have sl: "slice idx (int (length a) + 1) (int ?si) = b"
    by (simp add: slice_def)
  show "marker_indent idx (int ?si) = (if filter is_space b = [] then b else filter is_space b)"
    unfolding marker_indent_def Let_def li sl by (simp add: replace_one_filter)
  have "take ?si idx = a @ 10 # b" using idx by simp
  moreover have "takeWhile (\<lambda>c. c \<noteq> 10) (rev b @ 10 # rev a) = rev b"
    using b by (subst takeWhile_append2) auto
  ultimately show "line_prefix idx ?si = b"
    by (simp add: line_prefix_def)
qed

lemma prefix_takeWhile_filter: "prefix (takeWhile P xs) (filter P xs)"
  by (induction xs) simp_all

lemma post_line_indented: "x \<in> set (post_lines indent p) \<Longrightarrow> x = [] \<or> prefix indent x"
  by (auto simp: post_lines_def)

lemma markup_line_indented:
  assumes "l \<in> set (markup_lines posts indent)"
  shows "l = [] \<or> prefix indent l"
proof (cases "posts = []")
  case True
  then show ?thesis using assms by (auto simp: markup_lines_def)
next
  case False
  have "x = [] \<or> prefix indent x" if x: "x \<in> set (concat (map (post_lines indent) posts))" for x
  proof -
    obtain p where "x \<in> set (post_lines indent p)" using x by auto
    then show ?thesis by (rule post_line_indented)
  qed
  moreover have "l = indent @ js ''</div>'' \<or>
      l \<in> set (butlast ((indent @ js ''<div class=\"grid md:grid-cols-3 gap-10\">'') #
                concat (map (post_lines indent) posts)))"
    using assms False by (simp add: markup_lines_def)
  then have "l = indent @ js ''</div>'' \<or>
      l = indent @ js ''<div class=\"grid md:grid-cols-3 gap-10\">'' \<or>
      l \<in> set (concat (map (post_lines indent) posts))"
    using in_set_butlastD by fastforce
  ultimately show ?thesis
    by auto
qed



lemma sample_index_markers:
  "indexOf sample_index startMarker = int 6" "indexOf sample_index endMarker = int 28"
  "take 6 sample_index = js ''<x>'' @ [10] @ js ''  ''"
  "drop (28 + length endMarker) sample_index = js ''tail''"
  "marker_indent sample_index (int 6) = js ''  ''"
  "leading_space (line_prefix sample_index 6) = js ''  ''"
  "10 \<in> set (take 6 sample_index)"
  by code_simp+


text \<open>
  C7, as amended. When the markers are in order and the start marker is not on the first
  line of the document, every line of the generated markup is either empty or starts
  with the white space that the line of the start marker starts with. The empty lines
  are the separators between the blocks of two posts.
\<close>

theorem generated_lines_indented:
  assumes "indexOf idx startMarker = int si" and "indexOf idx endMarker = int ei" and "si < ei"
    and "10 \<in> set (take si idx)"
  shows "\<exists>indent.
           updateIndex idx posts =
             Inr (take si idx @ startMarker @ [10] @ generateBlogMarkup posts indent @ [10] @ indent @
                  endMarker @ drop (ei + length endMarker) idx) \<and>
           (\<forall>l \<in> set (markup_lines posts indent).
              l = [] \<or> prefix (leading_space (line_prefix idx si)) l)"
proof -
  obtain a b where ab: "take si idx = a @ 10 # b" "10 \<notin> set b"
    using split_list_last [OF assms(4)] by blast
  have fs: "find_sub startMarker idx = Some si"
    using assms(1) by (simp add: indexOf_nat)
  have st: "take 19 (drop si idx) = startMarker" "si + 19 \<le> length idx"
    using find_sub_Some [OF fs] by simp_all
  have "hd (drop si idx) = hd (take 19 (drop si idx))"
    by (simp add: hd_take)
  also have "\<dots> = hd startMarker"
    by (simp only: st(1))
  also have "\<dots> = 60"
    by (simp add: startMarker_def js_def)
  finally have h: "hd (drop si idx) = 60" .
  have ne: "drop si idx \<noteq> []"
    using st(2) by simp
  obtain rest where rest: "drop si idx = 60 # rest"
    using h ne by (cases "drop si idx") simp_all
  have "idx = take si idx @ drop si idx" by simp
  then have idx: "idx = a @ 10 # b @ 60 # rest"
    using ab(1) rest by simp
  have "length (take si idx) = si" using st(2) by simp
  then have si: "si = length a + 1 + length b" using ab(1) by simp
  let ?indent = "marker_indent idx (int si)"
  have ind: "?indent = (if filter is_space b = [] then b else filter is_space b)"
    and lp: "line_prefix idx si = b"
    using marker_indent_line [OF idx ab(2)] unfolding si by simp_all
  have lead: "prefix (leading_space (line_prefix idx si)) ?indent"
  proof (cases "filter is_space b = []")
    case True
    then have "takeWhile is_space b = []"
      by (metis prefix_takeWhile_filter prefix_Nil)
    then show ?thesis by (simp add: leading_space_def lp)
  next
    case False
    then show ?thesis
      by (simp add: ind leading_space_def lp prefix_takeWhile_filter)
  qed
  have "l = [] \<or> prefix (leading_space (line_prefix idx si)) l"
    if "l \<in> set (markup_lines posts ?indent)" for l
    using markup_line_indented [OF that] lead by (auto intro: prefix_order.order_trans)
  then show ?thesis
    using updateIndex_found(1) [OF assms(1,2,3), of posts] by blast
qed

theorem generated_lines_indented_witness:
  "\<exists>indent.
     updateIndex sample_index two_posts =
       Inr ((js ''<x>'' @ [10] @ js ''  '') @ startMarker @ [10] @ generateBlogMarkup two_posts indent @
            [10] @ indent @ endMarker @ js ''tail'') \<and>
     list_all (\<lambda>l. l = [] \<or> prefix (js ''  '') l) (markup_lines two_posts indent)"
  using generated_lines_indented [of sample_index 6 28 two_posts]
  by (simp only: sample_index_markers list_all_iff) simp

lemma two_posts_blank_line: "[] \<in> set (markup_lines two_posts indent)"
  by (simp add: markup_lines_def two_posts_def post_lines_def)

text \<open>
  C7 as stated fails: with two posts the generated markup has an empty separator line,
  which does not start with the two spaces of the start marker's line.
\<close>

theorem blank_line_not_indented:
  "updateIndex sample_index two_posts =
     Inr ((js ''<x>'' @ [10] @ js ''  '') @ startMarker @ [10] @ generateBlogMarkup two_posts (js ''  '') @
          [10] @ js ''  '' @ endMarker @ js ''tail'') \<and>
   leading_space (line_prefix sample_index 6) = js ''  '' \<and>
   [] \<in> set (markup_lines two_posts (js ''  '')) \<and>
   \<not> prefix (js ''  '') []"
proof -
  have "updateIndex sample_index two_posts =
     Inr ((js ''<x>'' @ [10] @ js ''  '') @ startMarker @ [10] @ generateBlogMarkup two_posts (js ''  '') @
          [10] @ js ''  '' @ endMarker @ js ''tail'')"
    using updateIndex_found(1) [of sample_index 6 28 two_posts]
    by (simp only: sample_index_markers)
  moreover have "\<not> prefix (js ''  '') []"
    by (simp add: js_def)
  ultimately show ?thesis
    using sample_index_markers(6) two_posts_blank_line by blast
qed

section \<open>The build as a whole\<close>

lemma process_entry_files:
  assumes "isFile e" and "endsWith (toLowerCase pf (name e)) (js ''.html'')"
  shows "snd (snd (process_entry pf e st)) =
           (snd (snd st))(fst (ensureUniqueSlug (slugify pf (replace_first m_html_ext [] (name e))) (fst st)) @ js ''.html''
              \<mapsto> contents e)"
  using assms by (simp add: process_entry_def Let_def split: prod.splits)

lemma process_entry_add:
  "process_entry pf e (cnt, ps, fl ++ w) =
     (case process_entry pf e (cnt, ps, w) of (c, p, w') \<Rightarrow> (c, p, fl ++ w'))"
  by (simp add: process_entry_def Let_def split: prod.splits)

lemma foldl_process_add:
  "foldl (\<lambda>st e. process_entry pf e st) (cnt, ps, fl ++ w) es =
     (case foldl (\<lambda>st e. process_entry pf e st) (cnt, ps, w) es of (c, p, w') \<Rightarrow> (c, p, fl ++ w'))"
proof (induction es arbitrary: cnt ps w)
  case Nil
  then show ?case by simp
next
  case (Cons e es)
  obtain c p w' where step: "process_entry pf e (cnt, ps, w) = (c, p, w')"
    by (cases "process_entry pf e (cnt, ps, w)") auto
  then have "process_entry pf e (cnt, ps, fl ++ w) = (c, p, fl ++ w')"
    by (simp add: process_entry_add)
  then show ?case
    using step Cons.IH [of c p w'] by simp
qed

lemma scan_drafts_add:
  "scan_drafts pf es fl =
     (case scan_drafts pf es Map.empty of (c, p, w) \<Rightarrow> (c, p, fl ++ w))"
  using foldl_process_add [of pf Map.empty "[]" fl Map.empty es]
  by (simp add: scan_drafts_def)

lemma main_result:
  "main pf es st =
     (case updateIndex (index_html st) (sort_posts (localeCompare pf) (fst (snd (scan_drafts pf es Map.empty)))) of
        Inl e \<Rightarrow> (Some e, st\<lparr> blog_files := blog_files st ++ written_files pf es \<rparr>)
      | Inr r \<Rightarrow> (None, \<lparr> blog_files = blog_files st ++ written_files pf es, index_html = r \<rparr>))"
proof -
  obtain c p w where sc: "scan_drafts pf es Map.empty = (c, p, w)"
    by (cases "scan_drafts pf es Map.empty") auto
  then have sc': "scan_drafts pf es (blog_files st) = (c, p, blog_files st ++ w)"
    using scan_drafts_add [of pf es "blog_files st"] by simp
  have wf: "blog_files st ++ written_files pf es =
          (blog_files st ++ w)(js ''posts.json'' \<mapsto> json_stringify (sort_posts (localeCompare pf) p) @ [10])"
    unfolding written_files_def manifest_text_def sc by simp
  have p: "fst (snd (scan_drafts pf es Map.empty)) = p"
    unfolding sc by simp
  show ?thesis
    unfolding wf p main_def sc' Let_def prod.case ..
qed

lemma main_files: "blog_files (snd (main pf es st)) = blog_files st ++ written_files pf es"
  unfolding main_result by (cases "updateIndex (index_html st) (sort_posts (localeCompare pf) (fst (snd (scan_drafts pf es Map.empty))))") simp_all

lemma written_manifest: "(m ++ written_files pf es) (js ''posts.json'') = Some (manifest_text pf es)"
  by (simp add: written_files_def)

lemma map_add_twice: "(m ++ w) ++ w = m ++ w"
  by (rule ext) (simp add: map_add_def split: option.splits)

text \<open>
  C8. Whatever the state a build starts from, it writes the same files with the same
  contents to \<open>blog/\<close>, the manifest and the published documents, which depend on the
  drafts only (listed in the same order); so a second build on the same drafts leaves
  \<open>blog/\<close> as the first one left it.
\<close>

theorem rebuild_is_idempotent:
  "blog_files (snd (main pf es (snd (main pf es st)))) = blog_files (snd (main pf es st)) \<and>
   blog_files (snd (main pf es st)) = blog_files st ++ written_files pf es \<and>
   blog_files (snd (main pf es st')) = blog_files st' ++ written_files pf es \<and>
   blog_files (snd (main pf es st)) (js ''posts.json'') = Some (manifest_text pf es) \<and>
   blog_files (snd (main pf es st')) (js ''posts.json'') = Some (manifest_text pf es)"
  by (simp only: main_files written_manifest map_add_twice)


theorem rebuild_is_idempotent_witness:
  "blog_files (snd (main ascii_platform one_draft (snd (main ascii_platform one_draft unmarked_site)))) =
     blog_files (snd (main ascii_platform one_draft unmarked_site)) \<and>
   blog_files (snd (main ascii_platform one_draft unmarked_site)) (js ''posts.json'') =
     Some (manifest_text ascii_platform one_draft)"
  using rebuild_is_idempotent [of ascii_platform one_draft unmarked_site unmarked_site]
  by blast

lemma updateIndex_bad:
  assumes "indexOf idx startMarker = -1 \<or> indexOf idx endMarker = -1 \<or>
           indexOf idx endMarker \<le> indexOf idx startMarker"
  shows "updateIndex idx posts = Inl BlogMarkersNotFound"
  using assms by (simp add: updateIndex_def Let_def)

lemma html_name_not_manifest: "s @ js ''.html'' \<noteq> js ''posts.json''"
proof
  assume "s @ js ''.html'' = js ''posts.json''"
  then have "last (s @ js ''.html'') = last (js ''posts.json'')" by simp
  then show False by (simp add: js_def)
qed

lemma process_entry_cases:
  "process_entry pf e (c, ps, fl) = (c, ps, fl) \<or>
   (\<exists>c' sl pt. process_entry pf e (c, ps, fl) =
      (c', ps @ [\<lparr> slug = sl, title = post_title (contents e) sl, excerpt = post_excerpt (contents e),
                     href = js ''blog/'' @ sl @ js ''.html'' \<rparr>],
       fl(sl @ js ''.html'' \<mapsto> contents e)))"
  by (auto simp: process_entry_def Let_def split: prod.splits)

lemma foldl_publishes:
  assumes "\<forall>p \<in> set ps. \<exists>e \<in> E. fl (slug p @ js ''.html'') = Some (contents e)"
    and "foldl (\<lambda>st e. process_entry pf e st) (c, ps, fl) es = (c', ps', fl')"
  shows "\<forall>p \<in> set ps'. \<exists>e \<in> E \<union> set es. fl' (slug p @ js ''.html'') = Some (contents e)"
  using assms
proof (induction es arbitrary: c ps fl E)
  case Nil
  then show ?case by simp
next
  case (Cons e es)
  obtain c1 ps1 fl1 where step: "process_entry pf e (c, ps, fl) = (c1, ps1, fl1)"
    by (cases "process_entry pf e (c, ps, fl)") auto
  have inv: "\<forall>p \<in> set ps1. \<exists>x \<in> insert e E. fl1 (slug p @ js ''.html'') = Some (contents x)"
    using process_entry_cases [of pf e c ps fl] Cons.prems(1) unfolding step
    by (elim disjE exE) (simp, fastforce)
  have "foldl (\<lambda>st e. process_entry pf e st) (c1, ps1, fl1) es = (c', ps', fl')"
    using Cons.prems(2) step by simp
  from Cons.IH [OF inv this] show ?case by simp
qed

lemma written_documents:
  "\<forall>p \<in> set (fst (snd (scan_drafts pf es Map.empty))).
     \<exists>e \<in> set es. written_files pf es (slug p @ js ''.html'') = Some (contents e)"
proof -
  obtain c ps fl where sc: "scan_drafts pf es Map.empty = (c, ps, fl)"
    by (cases "scan_drafts pf es Map.empty") auto
  then have "foldl (\<lambda>st e. process_entry pf e st) (Map.empty, [], Map.empty) es = (c, ps, fl)"
    by (simp add: scan_drafts_def)
  from foldl_publishes [OF _ this, of "{}"]
  have "\<forall>p \<in> set ps. \<exists>e \<in> set es. fl (slug p @ js ''.html'') = Some (contents e)"
    by simp
  then show ?thesis
    unfolding written_files_def sc by (simp add: html_name_not_manifest)
qed

text \<open>
  C2, as amended. When a marker is missing from the index document, or the end marker
  does not come after the start marker, \<open>main\<close> ends with the error of \<open>updateIndex\<close> and
  leaves the index document as it was. By then it has written the published documents
  and the manifest to \<open>blog/\<close>: the check of the markers is the last step of the build.
\<close>

theorem abort_after_publishing:
  assumes "indexOf (index_html st) startMarker = -1 \<or> indexOf (index_html st) endMarker = -1 \<or>
           indexOf (index_html st) endMarker \<le> indexOf (index_html st) startMarker"
  shows "fst (main pf es st) = Some BlogMarkersNotFound \<and>
         index_html (snd (main pf es st)) = index_html st \<and>
         blog_files (snd (main pf es st)) = blog_files st ++ written_files pf es \<and>
         written_files pf es (js ''posts.json'') = Some (manifest_text pf es) \<and>
         (\<forall>p \<in> set (fst (snd (scan_drafts pf es Map.empty))).
            \<exists>e \<in> set es. written_files pf es (slug p @ js ''.html'') = Some (contents e))"
proof -
  have "main pf es st = (Some BlogMarkersNotFound, st\<lparr> blog_files := blog_files st ++ written_files pf es \<rparr>)"
    unfolding main_result updateIndex_bad [OF assms] by simp
  then show ?thesis
    using written_documents [of pf es] by (simp add: written_files_def)
qed

lemma unmarked_site_markers: "indexOf (index_html unmarked_site) startMarker = -1"
  by code_simp

lemma one_draft_scan:
  "scan_drafts ascii_platform one_draft Map.empty =
     (fst (scan_drafts ascii_platform one_draft Map.empty),
      fst (snd (scan_drafts ascii_platform one_draft Map.empty)),
      [js ''a.html'' \<mapsto> js ''<p>x</p>''])"
proof -
  have "endsWith (toLowerCase ascii_platform (js ''a.html'')) (js ''.html'')"
    "slugify ascii_platform (replace_first m_html_ext [] (js ''a.html'')) = js ''a''"
    "js ''a'' @ js ''.html'' = js ''a.html''"
    by code_simp+
  then have "snd (snd (scan_drafts ascii_platform one_draft Map.empty)) = [js ''a.html'' \<mapsto> js ''<p>x</p>'']"
    by (simp add: scan_drafts_def one_draft_def process_entry_files ensureUniqueSlug_def)
  then show ?thesis
    by (metis prod.collapse)
qed

lemma one_draft_written:
  "written_files ascii_platform one_draft (js ''a.html'') = Some (js ''<p>x</p>'')"
  "written_files ascii_platform one_draft (js ''posts.json'') = Some (manifest_text ascii_platform one_draft)"
proof -
  have "js ''a.html'' \<noteq> js ''posts.json''"
    by code_simp
  then show "written_files ascii_platform one_draft (js ''a.html'') = Some (js ''<p>x</p>'')"
    unfolding written_files_def by (subst one_draft_scan) simp
  show "written_files ascii_platform one_draft (js ''posts.json'') = Some (manifest_text ascii_platform one_draft)"
    by (simp add: written_files_def)
qed

theorem abort_after_publishing_witness:
  "fst (main ascii_platform one_draft unmarked_site) = Some BlogMarkersNotFound \<and>
   index_html (snd (main ascii_platform one_draft unmarked_site)) = index_html unmarked_site \<and>
   blog_files (snd (main ascii_platform one_draft unmarked_site)) =
     blog_files unmarked_site ++ written_files ascii_platform one_draft \<and>
   written_files ascii_platform one_draft (js ''posts.json'') = Some (manifest_text ascii_platform one_draft)"
  using abort_after_publishing [of unmarked_site ascii_platform one_draft] unmarked_site_markers
  by blast

text \<open>
  C2 as stated fails: on a site whose index document has no markers and whose \<open>blog/\<close>
  is empty, the build of one draft ends with the error, and \<open>blog/\<close> then holds the
  published draft and the manifest.
\<close>

theorem output_written_before_abort:
  "fst (main ascii_platform one_draft unmarked_site) = Some BlogMarkersNotFound \<and>
   blog_files unmarked_site (js ''a.html'') = None \<and>
   blog_files (snd (main ascii_platform one_draft unmarked_site)) (js ''a.html'') = Some (js ''<p>x</p>'') \<and>
   blog_files unmarked_site (js ''posts.json'') = None \<and>
   blog_files (snd (main ascii_platform one_draft unmarked_site)) (js ''posts.json'') =
     Some (manifest_text ascii_platform one_draft)"
proof -
  have "main ascii_platform one_draft unmarked_site =
      (Some BlogMarkersNotFound,
       unmarked_site\<lparr> blog_files := blog_files unmarked_site ++ written_files ascii_platform one_draft \<rparr>)"
    unfolding main_result using updateIndex_bad [of "index_html unmarked_site"] unmarked_site_markers
    by simp
  moreover have "blog_files unmarked_site = Map.empty"
    by (simp add: unmarked_site_def)
  ultimately show ?thesis
    by (simp add: one_draft_written)
qed

section \<open>White space\<close>

lemma replace_g_no_match:
  "(\<And>c cs. c \<in> set s \<Longrightarrow> m (c # cs) = None) \<Longrightarrow> replace_g m f s = s"
  by (induction s) (simp_all add: replace_g.simps(2))


lemma js_space [simp]: "js '' '' = [32]"
  by (simp add: js_def)

lemma space_32 [simp]: "is_space 32"
  by (simp add: is_space_def)

lemma single_spaced_Cons:
  "single_spaced (c # cs) \<longleftrightarrow>
     (is_space c \<longrightarrow> c = 32 \<and> (cs = [] \<or> \<not> is_space (hd cs))) \<and> single_spaced cs"
  by (cases cs) auto

lemma collapse_props:
  "single_spaced (replace_g (m_plus is_space) (\<lambda>_. [32]) s) \<and>
   filter (\<lambda>c. \<not> is_space c) (replace_g (m_plus is_space) (\<lambda>_. [32]) s) = filter (\<lambda>c. \<not> is_space c) s \<and>
   (s \<noteq> [] \<and> \<not> is_space (hd s) \<longrightarrow>
      replace_g (m_plus is_space) (\<lambda>_. [32]) s \<noteq> [] \<and> hd (replace_g (m_plus is_space) (\<lambda>_. [32]) s) = hd s)"
proof (induction "length s" arbitrary: s rule: less_induct)
  case less
  let ?h = "replace_g (m_plus is_space) (\<lambda>_. [32])"
  show ?case
  proof (cases s)
    case Nil
    then show ?thesis by simp
  next
    case (Cons c cs)
    show ?thesis
    proof (cases "is_space c")
      case False
      have ih: "single_spaced (?h cs)" "filter (\<lambda>c. \<not> is_space c) (?h cs) = filter (\<lambda>c. \<not> is_space c) cs"
        using less [of cs] Cons by simp_all
      have eq: "?h s = c # ?h cs"
        using False Cons by (simp add: replace_plus_Cons)
      show ?thesis
        unfolding eq using ih False Cons by (simp add: single_spaced_Cons)
    next
      case True
      let ?r = "dropWhile is_space cs"
      have len: "length ?r < length s"
        using Cons length_dropWhile_less [of _ cs] by simp
      have ih: "single_spaced (?h ?r)" "filter (\<lambda>c. \<not> is_space c) (?h ?r) = filter (\<lambda>c. \<not> is_space c) ?r"
        "?r \<noteq> [] \<and> \<not> is_space (hd ?r) \<longrightarrow> ?h ?r \<noteq> [] \<and> hd (?h ?r) = hd ?r"
        using less [OF len] by simp_all
      have eq: "?h s = 32 # ?h ?r"
        using True Cons by (simp add: replace_plus_Cons)
      have next_unit: "?h ?r = [] \<or> \<not> is_space (hd (?h ?r))"
      proof (cases "?r = []")
        case True
        show ?thesis unfolding True by simp
      next
        case False
        then have "\<not> is_space (hd ?r)"
          using hd_dropWhile [of is_space cs] by simp
        then show ?thesis using ih(3) False by simp
      qed
      have "filter (\<lambda>c. \<not> is_space c) ?r = filter (\<lambda>c. \<not> is_space c) cs"
        by (induction cs) simp_all
      then show ?thesis
        unfolding eq using ih(1,2) True Cons next_unit by (simp add: single_spaced_Cons)
    qed
  qed
qed

lemma collapse_single_spaced:
  "single_spaced s \<Longrightarrow> replace_g (m_plus is_space) (\<lambda>_. [32]) s = s"
proof (induction s)
  case Nil
  then show ?case by simp
next
  case (Cons c cs)
  have ss: "single_spaced cs" using Cons.prems by (simp add: single_spaced_Cons)
  show ?case
  proof (cases "is_space c")
    case True
    then have c: "c = 32" and "cs = [] \<or> \<not> is_space (hd cs)"
      using Cons.prems by (simp_all add: single_spaced_Cons)
    then have "dropWhile is_space cs = cs"
      by (cases cs) auto
    then show ?thesis
      using True c ss Cons.IH by (simp add: replace_plus_Cons)
  next
    case False
    then show ?thesis
      using ss Cons.IH by (simp add: replace_plus_Cons)
  qed
qed

lemma single_spaced_dropWhile: "single_spaced s \<Longrightarrow> single_spaced (dropWhile P s)"
  by (induction s) (simp_all add: single_spaced_Cons)

lemma single_spaced_butlast: "single_spaced s \<Longrightarrow> single_spaced (butlast s)"
  by (induction s rule: single_spaced.induct) (auto split: if_splits)

lemma single_spaced_rev_dropWhile: "single_spaced s \<Longrightarrow> single_spaced (rev (dropWhile P (rev s)))"
proof (induction s rule: rev_induct)
  case Nil
  then show ?case by simp
next
  case (snoc x xs)
  have "single_spaced xs"
    using single_spaced_butlast [OF snoc.prems] by simp
  then show ?case
    using snoc by simp
qed

lemma single_spaced_trim: "single_spaced s \<Longrightarrow> single_spaced (trim s)"
  by (simp add: trim_def single_spaced_dropWhile single_spaced_rev_dropWhile)

lemma trim_ends:
  assumes "trim s \<noteq> []"
  shows "\<not> is_space (hd (trim s))" and "\<not> is_space (last (trim s))"
proof -
  let ?d = "dropWhile is_space s"
  let ?e = "dropWhile is_space (rev ?d)"
  have e: "?e \<noteq> []" using assms by (simp add: trim_def)
  have d: "?d \<noteq> []"
  proof
    assume a: "?d = []"
    have "?e = []" unfolding a by simp
    then show False using e by simp
  qed
  have "\<not> is_space (hd ?e)" using e hd_dropWhile by blast
  then show "\<not> is_space (last (trim s))"
    using e by (simp add: trim_def last_rev)
  have "\<not> is_space (hd ?d)" using d hd_dropWhile by blast
  moreover have "last (rev ?d) = hd ?d" using d by (simp add: last_rev)
  moreover have "last ?e = last (rev ?d)"
    using e by (metis last_appendR takeWhile_dropWhile_id)
  ultimately show "\<not> is_space (hd (trim s))"
    using e by (simp add: trim_def hd_rev)
qed

lemma trim_trim: "trim (trim s) = trim s"
proof (cases "trim s = []")
  case True
  show ?thesis unfolding True by (simp add: trim_def)
next
  case False
  have "dropWhile is_space (trim s) = trim s"
    using trim_ends(1) [OF False] False by (cases "trim s") simp_all
  moreover have "dropWhile is_space (rev (trim s)) = rev (trim s)"
    using trim_ends(2) [OF False] False by (cases "rev (trim s)") (simp_all add: last_rev [symmetric] hd_rev)
  ultimately show ?thesis
    by (simp add: trim_def)
qed

lemma cleanupWhitespace_idem: "cleanupWhitespace (cleanupWhitespace s) = cleanupWhitespace s"
proof -
  have "single_spaced (cleanupWhitespace s)"
    using collapse_props [of s] by (simp add: cleanupWhitespace_def single_spaced_trim)
  then show ?thesis
    by (simp add: cleanupWhitespace_def [of "cleanupWhitespace s"] collapse_single_spaced)
       (simp add: cleanupWhitespace_def trim_trim)
qed

lemma trim_empty_iff: "trim s = [] \<longleftrightarrow> (\<forall>c \<in> set s. is_space c)"
proof
  assume "trim s = []"
  then have "dropWhile is_space (rev (dropWhile is_space s)) = []"
    by (simp add: trim_def)
  then have "\<forall>c \<in> set (dropWhile is_space s). is_space c"
    by (simp add: dropWhile_eq_Nil_conv)
  then have all: "\<forall>c \<in> set (dropWhile is_space s). is_space c" .
  have "dropWhile is_space s = []"
  proof (rule ccontr)
    assume ne: "dropWhile is_space s \<noteq> []"
    then have "\<not> is_space (hd (dropWhile is_space s))"
      by (rule hd_dropWhile)
    moreover have "hd (dropWhile is_space s) \<in> set (dropWhile is_space s)"
      using ne by (rule hd_in_set)
    ultimately show False using all by blast
  qed
  then show "\<forall>c \<in> set s. is_space c"
    by (simp add: dropWhile_eq_Nil_conv)
next
  assume "\<forall>c \<in> set s. is_space c"
  then have d: "dropWhile is_space s = []"
    by (simp add: dropWhile_eq_Nil_conv)
  show "trim s = []" unfolding trim_def d by simp
qed

lemma cleanupWhitespace_empty_iff: "cleanupWhitespace s = [] \<longleftrightarrow> (\<forall>c \<in> set s. is_space c)"
proof -
  let ?h = "replace_g (m_plus is_space) (\<lambda>_. [32]) s"
  have eq: "filter (\<lambda>c. \<not> is_space c) ?h = filter (\<lambda>c. \<not> is_space c) s"
    using collapse_props [of s] by simp
  have "(\<forall>c \<in> set ?h. is_space c) \<longleftrightarrow> filter (\<lambda>c. \<not> is_space c) ?h = []"
    by (simp add: filter_empty_conv)
  also have "\<dots> \<longleftrightarrow> filter (\<lambda>c. \<not> is_space c) s = []"
    by (simp only: eq)
  also have "\<dots> \<longleftrightarrow> (\<forall>c \<in> set s. is_space c)"
    by (simp add: filter_empty_conv)
  finally show ?thesis
    by (simp add: cleanupWhitespace_def trim_empty_iff)
qed



section \<open>Excerpts\<close>













section \<open>Titles\<close>

lemma extractTitle_elements:
  "extractTitle html =
     (case title_element html of
        Some t \<Rightarrow> clean_text t
      | None \<Rightarrow> (case heading_element html of Some h \<Rightarrow> clean_text h | None \<Rightarrow> []))"
  unfolding extractTitle_def title_element_def heading_element_def clean_text_def ..

lemma clean_text_idem: "cleanupWhitespace (clean_text t) = clean_text t"
  by (simp add: clean_text_def cleanupWhitespace_idem)

lemma post_title_resolved: "post_title html sl = resolved_title html sl"
  by (simp add: post_title_def Let_def resolved_title_def extractTitle_elements humanized_slug_def
      clean_text_idem split: option.splits)

lemma stripHtml_id: "60 \<notin> set s \<Longrightarrow> stripHtml s = s"
  unfolding stripHtml_def by (rule replace_g_no_match) (auto simp: m_tag_def Let_def)

lemma ascii_upper_amp: "ascii_upper c = 38 \<longleftrightarrow> c = 38"
  by (auto simp: ascii_upper_def)

lemma entity_no_match:
  assumes "c \<noteq> 38" and "hd pat = 38" and "pat \<noteq> []"
  shows "m_lit_ci pat (c # cs) = None"
proof -
  obtain ps where pat: "pat = 38 # ps" using assms(2,3) by (cases pat) auto
  show ?thesis
    using assms(1) by (auto simp: m_lit_ci_def starts_with_ci_def pat ascii_upper_amp ascii_upper_def)
qed

lemma replace_entity_id:
  assumes "38 \<notin> set s" and "hd p = 38" and "p \<noteq> []"
  shows "replace_g (m_lit_ci p) f s = s"
  using assms by (intro replace_g_no_match entity_no_match) auto

lemma replace_entities_id:
  assumes "38 \<notin> set s" and "hd p = 38" and "p \<noteq> []" and "hd q = 38" and "q \<noteq> []"
  shows "replace_g (m_alt (m_lit_ci p) (m_lit_ci q)) f s = s"
proof (rule replace_g_no_match)
  fix c cs
  assume "c \<in> set s"
  then have "c \<noteq> 38" using assms(1) by auto
  then show "m_alt (m_lit_ci p) (m_lit_ci q) (c # cs) = None"
    using assms by (simp add: m_alt_def entity_no_match)
qed

lemma entity_literals:
  "hd (js (CHR ''&'' # x)) = 38" "js (CHR ''&'' # x) \<noteq> []"
  by (simp_all add: js_def)

lemma decodeEntities_id: "38 \<notin> set s \<Longrightarrow> decodeEntities s = s"
  by (simp add: decodeEntities_def replace_entity_id replace_entities_id entity_literals)

lemma clean_text_blank:
  assumes "\<forall>c \<in> set t. is_space c"
  shows "clean_text t = []"
proof -
  have "\<not> is_space 60" "\<not> is_space 38"
    by (simp_all add: is_space_def)
  then have "60 \<notin> set t" "38 \<notin> set t"
    using assms by auto
  then show ?thesis
    using assms by (simp add: clean_text_def stripHtml_id decodeEntities_id cleanupWhitespace_empty_iff)
qed

text \<open>
  C10. When the draft has a \<open><title>\<close> element whose content is empty or white space
  only, \<open>extractTitle\<close> returns the empty string from its first branch, whether or not
  an \<open><h1>\<close> element follows, and the title of the post is the fallback made from the
  slug.
\<close>

theorem blank_title_skips_heading:
  assumes "title_element html = Some t" and "\<forall>c \<in> set t. is_space c"
  shows "extractTitle html = [] \<and> post_title html sl = humanized_slug sl"
  using assms clean_text_blank [of t]
  by (simp add: extractTitle_elements post_title_resolved resolved_title_def)


lemma humanized_slug_nonempty:
  assumes "sl \<noteq> []" and "is_lower_alnum (hd sl)"
  shows "humanized_slug sl \<noteq> []"
proof -
  obtain c cs where sl: "sl = c # cs" using assms(1) by (cases sl) auto
  have c: "is_lower_alnum c" using assms(2) sl by simp
  then have c45: "c \<noteq> 45" by (auto simp: is_lower_alnum_def)
  have wc: "is_word_char c" using c by (auto simp: is_lower_alnum_def is_word_char_def)
  let ?sp = "replace_g (m_char 45) (\<lambda>_. [32]) cs"
  have "replace_g (m_char 45) (\<lambda>_. [32]) sl = c # ?sp"
    using c45 by (simp add: sl replace_g.simps(2) m_char_def)
  moreover obtain n where n: "m_plus is_word_char (c # ?sp) = Some n" "0 < n"
    using wc by (simp add: m_plus_def)
  then have "toTitleCase (c # ?sp) =
      capitalize (take n (c # ?sp)) @ replace_g (m_plus is_word_char) capitalize (drop (n - 1) ?sp)"
    by (simp add: toTitleCase_def replace_g.simps(2))
  moreover have "capitalize (take n (c # ?sp)) = ascii_upper c # take (n - 1) ?sp"
    using n(2) by (cases n) (simp_all add: capitalize_def)
  moreover have "\<not> is_space (ascii_upper c)"
    using c by (auto simp: is_lower_alnum_def ascii_upper_def is_space_def)
  ultimately have "\<exists>x \<in> set (toTitleCase (replace_g (m_char 45) (\<lambda>_. [32]) sl)). \<not> is_space x"
    by auto
  then show ?thesis
    by (simp add: humanized_slug_def cleanupWhitespace_empty_iff)
qed

lemma resolved_title_nonempty:
  assumes "sl \<noteq> []" and "is_lower_alnum (hd sl)"
  shows "resolved_title html sl \<noteq> []"
  using humanized_slug_nonempty [OF assms]
  by (simp add: resolved_title_def split: option.splits)

lemma clean_words:
  "cleanupWhitespace (js ''Hello World'') = js ''Hello World''"
  "cleanupWhitespace (js ''Hi'') = js ''Hi''"
  "cleanupWhitespace (js ''A'') = js ''A''"
  by (simp_all add: cleanupWhitespace_def trim_def js_def replace_plus_Cons is_space_def)

lemma title_case_words:
  "toTitleCase (replace_g (m_char 45) (\<lambda>_. js '' '') (js ''hello-world'')) = js ''Hello World''"
  "toTitleCase (replace_g (m_char 45) (\<lambda>_. js '' '') (js ''a'')) = js ''A''"
  by code_simp+

lemma page_elements:
  "title_element blank_title_page = Some (js '' '')"
  "heading_element blank_title_page = Some (js ''Hi'')"
  "title_element empty_title_page = Some []"
  "heading_element empty_title_page = Some (js ''Hi'')"
  by code_simp+

lemma humanized_words:
  "humanized_slug (js ''hello-world'') = js ''Hello World''" "humanized_slug (js ''a'') = js ''A''"
  by (simp_all only: humanized_slug_def title_case_words clean_words)

theorem blank_title_skips_heading_witness:
  "title_element blank_title_page = Some (js '' '') \<and>
   heading_element blank_title_page = Some (js ''Hi'') \<and>
   extractTitle blank_title_page = [] \<and>
   post_title blank_title_page (js ''hello-world'') = js ''Hello World''"
proof -
  have "\<forall>c \<in> set (js '' ''). is_space c"
    by simp
  then show ?thesis
    using blank_title_skips_heading [of blank_title_page "js '' ''" "js ''hello-world''"]
    by (simp only: page_elements humanized_words)
qed

lemma valid_slug_head: "valid_slug sl \<Longrightarrow> sl \<noteq> [] \<and> is_lower_alnum (hd sl)"
  by (cases sl) (auto simp: valid_slug_def is_slug_char_def)

lemma process_entry_post:
  "process_entry pf e (c, ps, fl) = (c, ps, fl) \<or>
   (\<exists>c' sl fl'. valid_slug sl \<and>
      process_entry pf e (c, ps, fl) =
        (c', ps @ [\<lparr> slug = sl, title = post_title (contents e) sl, excerpt = post_excerpt (contents e),
                       href = js ''blog/'' @ sl @ js ''.html'' \<rparr>], fl'))"
proof (cases "isFile e \<and> endsWith (toLowerCase pf (name e)) (js ''.html'')")
  case False
  then show ?thesis by (auto simp: process_entry_def)
next
  case True
  let ?sl = "fst (ensureUniqueSlug (slugify pf (replace_first m_html_ext [] (name e))) c)"
  have "valid_slug ?sl" by (rule unique_slug_valid)
  moreover have "\<exists>c' fl'. process_entry pf e (c, ps, fl) =
        (c', ps @ [\<lparr> slug = ?sl, title = post_title (contents e) ?sl, excerpt = post_excerpt (contents e),
                       href = js ''blog/'' @ ?sl @ js ''.html'' \<rparr>], fl')"
    using True by (simp add: process_entry_def Let_def split: prod.splits)
  ultimately show ?thesis by blast
qed

lemma foldl_titles:
  assumes "\<forall>p \<in> set ps. valid_slug (slug p) \<and> (\<exists>e \<in> E. title p = post_title (contents e) (slug p))"
    and "foldl (\<lambda>st e. process_entry pf e st) (c, ps, fl) es = (c', ps', fl')"
  shows "\<forall>p \<in> set ps'. valid_slug (slug p) \<and> (\<exists>e \<in> E \<union> set es. title p = post_title (contents e) (slug p))"
  using assms
proof (induction es arbitrary: c ps fl E)
  case Nil
  then show ?case by simp
next
  case (Cons e es)
  obtain c1 ps1 fl1 where step: "process_entry pf e (c, ps, fl) = (c1, ps1, fl1)"
    by (cases "process_entry pf e (c, ps, fl)") auto
  have inv: "\<forall>p \<in> set ps1. valid_slug (slug p) \<and> (\<exists>x \<in> insert e E. title p = post_title (contents x) (slug p))"
    using process_entry_post [of pf e c ps fl] Cons.prems(1) unfolding step
    by (elim disjE exE conjE) (simp, fastforce)
  have "foldl (\<lambda>st e. process_entry pf e st) (c1, ps1, fl1) es = (c', ps', fl')"
    using Cons.prems(2) step by simp
  from Cons.IH [OF inv this] show ?case by simp
qed

text \<open>
  C6, as amended. The title of a post is the cleaned content of the \<open><title>\<close> element
  when the draft has one and that content is not empty; without a \<open><title>\<close> element,
  the cleaned content of the first \<open><h1>\<close> element when there is one and that content
  is not empty; and in every other case the fallback made from the slug. The title of
  every post of a build is not empty.
\<close>

theorem title_resolution:
  "post_title html sl = resolved_title html sl \<and>
   (valid_slug sl \<longrightarrow> post_title html sl \<noteq> []) \<and>
   (\<forall>p \<in> set (fst (snd (scan_drafts pf es fl))).
      title p \<noteq> [] \<and> (\<exists>e \<in> set es. title p = resolved_title (contents e) (slug p)))"
proof -
  obtain c ps fl' where sc: "scan_drafts pf es fl = (c, ps, fl')"
    by (cases "scan_drafts pf es fl") auto
  then have "foldl (\<lambda>st e. process_entry pf e st) (Map.empty, [], fl) es = (c, ps, fl')"
    by (simp add: scan_drafts_def)
  from foldl_titles [OF _ this, of "{}"]
  have "\<forall>p \<in> set ps. valid_slug (slug p) \<and> (\<exists>e \<in> set es. title p = post_title (contents e) (slug p))"
    by simp
  then have "\<forall>p \<in> set ps. title p \<noteq> [] \<and> (\<exists>e \<in> set es. title p = resolved_title (contents e) (slug p))"
    using resolved_title_nonempty valid_slug_head unfolding post_title_resolved by metis
  then show ?thesis
    using resolved_title_nonempty valid_slug_head by (simp add: sc post_title_resolved)
qed

theorem title_resolution_witness:
  "post_title blank_title_page (js ''a'') = resolved_title blank_title_page (js ''a'') \<and>
   post_title blank_title_page (js ''a'') \<noteq> [] \<and>
   list_all (\<lambda>p. title p \<noteq> []) (fst (snd (scan_drafts ascii_platform one_draft Map.empty)))"
proof -
  have "valid_slug (js ''a'')"
    by (simp add: valid_slug_def js_def is_slug_char_def is_lower_alnum_def)
  then show ?thesis
    using title_resolution [of blank_title_page "js ''a''" ascii_platform one_draft Map.empty]
    unfolding list_all_iff by blast
qed

text \<open>
  C6 as stated fails: for a draft with an empty \<open><title>\<close> element followed by the
  heading \<open>Hi\<close>, the title of the post is neither the content of the \<open><title>\<close>
  element, which is empty, nor that of the heading, but the fallback \<open>A\<close> made from
  the slug \<open>a\<close>.
\<close>

theorem empty_title_not_used:
  "title_element empty_title_page = Some [] \<and>
   heading_element empty_title_page = Some (js ''Hi'') \<and>
   clean_text (js ''Hi'') = js ''Hi'' \<and>
   stated_title empty_title_page (js ''a'') = [] \<and>
   post_title empty_title_page (js ''a'') = js ''A''"
proof -
  have "60 \<notin> set (js ''Hi'')" "38 \<notin> set (js ''Hi'')"
    by (simp_all add: js_def)
  then have hi: "clean_text (js ''Hi'') = js ''Hi''"
    by (simp add: clean_text_def stripHtml_id decodeEntities_id clean_words)
  have e: "clean_text [] = []"
    by (rule clean_text_blank) simp
  show ?thesis
    by (simp add: hi e page_elements stated_title_def post_title_resolved resolved_title_def humanized_words)
qed

end
